theory Spec2Isabelle
  imports Main
begin

section \<open>Strings and integers as the bots use them\<close>

text \<open>
  Python strings are modelled as \<open>string\<close>, read as sequences of code points below 256.
  The helpers below follow the Python built-ins the two bots call: \<open>str\<close> on an integer,
  \<open>str.lower\<close>, \<open>str.strip\<close>, \<open>str.startswith\<close>, the \<open>in\<close> test on strings,
  \<open>str.isdigit\<close> and \<open>int\<close> on a string.

  The interpreter is CPython with the limit on integer string conversion (src/cgi.py is a
  shim for Python 3.13): converting an int of more than 4300 decimal digits to a string,
  by \<open>str\<close> or inside an f-string, raises ValueError, and so does \<open>int\<close> on a literal of
  more than 4300 digits. \<open>py_str\<close> is the conversion with this check. \<open>str_int\<close>, the
  digits themselves, is used directly for the identifiers that the platform delivers (chat
  ids, message ids, durations) and for positions in and lengths of lists, all of which
  are far below the limit.
\<close>

datatype error =
    TypeError | ValueError | IndexError | AttributeError | OverflowError
  | KeyError | FileNotFoundError | OSError | JSONDecodeError

definition digit_char :: "nat \<Rightarrow> char" where
  "digit_char d = ''0123456789'' ! (d mod 10)"

definition is_digit :: "char \<Rightarrow> bool" where
  "is_digit c = (c \<in> set ''0123456789'')"

fun str_nat :: "nat \<Rightarrow> string" where
  "str_nat n = (if n < 10 then [digit_char n] else str_nat (n div 10) @ [digit_char (n mod 10)])"

declare str_nat.simps [simp del]

definition str_int :: "int \<Rightarrow> string" where
  "str_int i = (if i < 0 then CHR ''-'' # str_nat (nat (- i)) else str_nat (nat i))"

definition max_str_digits :: nat where
  "max_str_digits = 4300"

definition py_str :: "int \<Rightarrow> error + string" where
  "py_str i = (if 10 ^ max_str_digits \<le> \<bar>i\<bar> then Inl ValueError else Inr (str_int i))"

definition and_then :: "error + 'a \<Rightarrow> ('a \<Rightarrow> error + 'b) \<Rightarrow> error + 'b" where
  "and_then r f = (case r of Inl e \<Rightarrow> Inl e | Inr v \<Rightarrow> f v)"

definition lower_char :: "char \<Rightarrow> char" where
  "lower_char c =
     (let n = (of_char c :: nat)
      in if (65 \<le> n \<and> n \<le> 90) \<or> (192 \<le> n \<and> n \<le> 222 \<and> n \<noteq> 215)
         then char_of (n + 32) else c)"

definition lower :: "string \<Rightarrow> string" where
  "lower s = map lower_char s"

definition is_space :: "char \<Rightarrow> bool" where
  "is_space c =
     (let n = (of_char c :: nat)
      in (9 \<le> n \<and> n \<le> 13) \<or> (28 \<le> n \<and> n \<le> 32) \<or> n = 133 \<or> n = 160)"

definition strip :: "string \<Rightarrow> string" where
  "strip s = rev (dropWhile is_space (rev (dropWhile is_space s)))"

definition startswith :: "string \<Rightarrow> string \<Rightarrow> bool" where
  "startswith s p = (take (length p) s = p)"

fun contains :: "string \<Rightarrow> string \<Rightarrow> bool" where
  "contains [] q = (q = [])"
| "contains (c # cs) q = (startswith (c # cs) q \<or> contains cs q)"

definition isdigit :: "string \<Rightarrow> bool" where
  "isdigit s =
     (s \<noteq> [] \<and> list_all (\<lambda>c. is_digit c \<or> (of_char c :: nat) \<in> {178, 179, 185}) s)"

fun no_double_underscore :: "string \<Rightarrow> bool" where
  "no_double_underscore (a # b # cs) =
     (\<not> (a = CHR ''_'' \<and> b = CHR ''_'') \<and> no_double_underscore (b # cs))"
| "no_double_underscore cs = True"

definition digit_val :: "char \<Rightarrow> int" where
  "digit_val c = int (of_char c) - 48"

text \<open>
  \<open>int\<close> on a string accepts white space around the literal, but its white space is not
  that of \<open>str.strip\<close>: the separators 0x1C to 0x1F are not skipped. The literal is an
  optional sign and decimal digits, single underscores allowed between digits, with at
  most 4300 digits (leading zeros count, underscores and the sign do not). Every failure
  is a ValueError.
\<close>

definition is_int_space :: "char \<Rightarrow> bool" where
  "is_int_space c =
     (let n = (of_char c :: nat)
      in (9 \<le> n \<and> n \<le> 13) \<or> n = 32 \<or> n = 133 \<or> n = 160)"

definition int_strip :: "string \<Rightarrow> string" where
  "int_strip s = rev (dropWhile is_int_space (rev (dropWhile is_int_space s)))"

definition int_literal :: "string \<Rightarrow> int option" where
  "int_literal body =
     (if body \<noteq> [] \<and> is_digit (hd body) \<and> is_digit (last body)
         \<and> list_all (\<lambda>c. is_digit c \<or> c = CHR ''_'') body \<and> no_double_underscore body
         \<and> length (filter is_digit body) \<le> max_str_digits
      then Some (foldl (\<lambda>a c. 10 * a + digit_val c) 0 (filter is_digit body))
      else None)"

definition int_of_str :: "string \<Rightarrow> error + int" where
  "int_of_str s =
     (let t = int_strip s;
          r = (case t of
                 [] \<Rightarrow> None
               | c # cs \<Rightarrow>
                   if c = CHR ''-'' then map_option uminus (int_literal cs)
                   else if c = CHR ''+'' then int_literal cs
                   else int_literal t)
      in case r of None \<Rightarrow> Inl ValueError | Some n \<Rightarrow> Inr n)"

datatype pyval = PNone | PInt int | PStr string

fun py_int :: "pyval \<Rightarrow> error + int" where
  "py_int PNone = Inl TypeError"
| "py_int (PInt n) = Inr n"
| "py_int (PStr s) = int_of_str s"

section \<open>Size and duration formatting (src/bot.py)\<close>

text \<open>
  The format \<open>02d\<close>: the decimal string, padded with a zero to two characters. In
  \<open>format_duration\<close> only the conversion \<open>int(seconds)\<close> is inside the \<open>try\<close>; the
  f-strings are outside, so a ValueError of their conversions leaves the function.
\<close>

definition zero_pad2 :: "string \<Rightarrow> string" where
  "zero_pad2 s = (if length s < 2 then CHR ''0'' # s else s)"

definition fmt_02d :: "int \<Rightarrow> error + string" where
  "fmt_02d i = (case py_str i of Inl e \<Rightarrow> Inl e | Inr s \<Rightarrow> Inr (zero_pad2 s))"

definition format_duration :: "pyval \<Rightarrow> error + string" where
  "format_duration seconds0 =
     (case py_int seconds0 of
        Inl _ \<Rightarrow> Inr ''''
      | Inr seconds \<Rightarrow>
          (let h = seconds div 3600;
               m = (seconds mod 3600) div 60;
               s = seconds mod 60
           in if h > 0 then
                and_then (fmt_02d h) (\<lambda>hs.
                and_then (fmt_02d m) (\<lambda>ms.
                and_then (fmt_02d s) (\<lambda>ss. Inr (hs @ '':'' @ ms @ '':'' @ ss))))
              else
                and_then (fmt_02d m) (\<lambda>ms.
                and_then (fmt_02d s) (\<lambda>ss. Inr (ms @ '':'' @ ss)))))"

definition two_digits :: "nat \<Rightarrow> string" where
  "two_digits n = [digit_char (n div 10), digit_char (n mod 10)]"

text \<open>
  The floats that \<open>format_file_size\<close> computes are quotients of an integer by a power of
  two, so a float is kept as a pair \<open>(n, k)\<close> standing for \<open>n / 2 ^ k\<close>.
  \<open>truediv_pow2 a k\<close> is Python's \<open>a / 2 ** k\<close> on an int \<open>a\<close>: the quotient rounded to the
  53 significant bits of a double (ties to even), OverflowError at \<open>2 ^ 1024\<close> and beyond.
  \<open>fdiv_pow2\<close> is the division of a float by \<open>2 ** j\<close>, which is exact on the values at least
  one that occur here. \<open>fmt_2f\<close> is the format \<open>.2f\<close>: the value rounded to hundredths (ties
  to even on the exact binary value), with all integer digits written out.
\<close>

type_synonym pyfloat = "int \<times> nat"

function bit_length :: "int \<Rightarrow> nat" where
  "bit_length n = (if n \<le> 0 then 0 else Suc (bit_length (n div 2)))"
  by pat_completeness auto
termination
  by (relation "measure nat") auto

declare bit_length.simps [simp del]

definition round_half_even :: "int \<Rightarrow> int \<Rightarrow> int" where
  "round_half_even n d =
     (let q = n div d; r = n mod d
      in if 2 * r < d then q else if 2 * r > d then q + 1 else if even q then q else q + 1)"

definition truediv_pow2 :: "int \<Rightarrow> nat \<Rightarrow> error + pyfloat" where
  "truediv_pow2 a k =
     (let sh = bit_length \<bar>a\<bar> - 53;
          n = round_half_even a (2 ^ sh) * 2 ^ sh
      in if \<bar>n\<bar> \<ge> 2 ^ (1024 + k) then Inl OverflowError else Inr (n, k))"

definition fdiv_pow2 :: "pyfloat \<Rightarrow> nat \<Rightarrow> pyfloat" where
  "fdiv_pow2 x j = (fst x, snd x + j)"

definition decimal2 :: "int \<Rightarrow> string" where
  "decimal2 r = str_nat (nat (r div 100)) @ ''.'' @ two_digits (nat (r mod 100))"

definition fmt_2f :: "pyfloat \<Rightarrow> string" where
  "fmt_2f x =
     (let r = round_half_even (100 * \<bar>fst x\<bar>) (2 ^ snd x)
      in (if fst x < 0 then ''-'' else '''') @ decimal2 r)"

definition format_file_size :: "int option \<Rightarrow> error + string" where
  "format_file_size size_bytes =
     (case size_bytes of
        None \<Rightarrow> Inr ''Unknown''
      | Some b \<Rightarrow>
          if b < 1024 then and_then (py_str b) (\<lambda>digits. Inr (digits @ '' B''))
          else if b < 1024 * 1024 then
            (case truediv_pow2 b 10 of
               Inl e \<Rightarrow> Inl e
             | Inr x \<Rightarrow> Inr (fmt_2f x @ '' KB''))
          else if b < 1024 * 1024 * 1024 then
            (case truediv_pow2 b 10 of
               Inl e \<Rightarrow> Inl e
             | Inr x \<Rightarrow> Inr (fmt_2f (fdiv_pow2 x 10) @ '' MB''))
          else
            (case truediv_pow2 b 10 of
               Inl e \<Rightarrow> Inl e
             | Inr x \<Rightarrow> Inr (fmt_2f (fdiv_pow2 (fdiv_pow2 x 10) 10) @ '' GB'')))"

section \<open>The two persisted JSON stores (src/bot.py)\<close>

text \<open>
  A JSON document as \<open>json.load\<close> returns it; a dict is an association list. A stored file
  is missing, unreadable, not a JSON text, or it holds a document. \<open>json_load\<close> stands for
  \<open>open\<close> followed by \<open>json.load\<close>, and \<open>try_except body d\<close> for
  \<open>try: return body / except Exception: return d\<close>.
\<close>

datatype json = JNull | JBool bool | JInt int | JStr string | JList "json list"
  | JDict "(string \<times> json) list"

datatype stored = Missing | Unreadable | Corrupt | Holds json

record disk =
  groups_file :: stored
  password_file :: stored

fun json_load :: "stored \<Rightarrow> error + json" where
  "json_load Missing = Inl FileNotFoundError"
| "json_load Unreadable = Inl OSError"
| "json_load Corrupt = Inl JSONDecodeError"
| "json_load (Holds j) = Inr j"

definition try_except :: "error + 'a \<Rightarrow> 'a \<Rightarrow> error + 'a" where
  "try_except body d = (case body of Inl _ \<Rightarrow> Inr d | Inr v \<Rightarrow> Inr v)"

fun dict_get :: "json \<Rightarrow> string \<Rightarrow> json \<Rightarrow> error + json" where
  "dict_get (JDict kv) k d = Inr (case map_of kv k of None \<Rightarrow> d | Some v \<Rightarrow> v)"
| "dict_get _ k d = Inl AttributeError"

fun dict_items :: "json \<Rightarrow> error + (string \<times> json) list" where
  "dict_items (JDict kv) = Inr kv"
| "dict_items _ = Inl AttributeError"

definition load_groups :: "disk \<Rightarrow> error + json" where
  "load_groups d = try_except (json_load (groups_file d)) (JDict [])"

definition load_password :: "disk \<Rightarrow> error + json" where
  "load_password d =
     try_except
       (case json_load (password_file d) of
          Inl e \<Rightarrow> Inl e
        | Inr data \<Rightarrow> dict_get data ''password'' (JStr ''admin''))
       (JStr ''admin'')"

section \<open>Sessions, replies and authentication (src/bot.py)\<close>

datatype kind = KDocument | KPhoto | KVideo

record file_info =
  file_id :: string
  file_size :: "int option"

record fdict =
  fd_file_info :: file_info
  fd_file_type :: kind
  fd_file_name :: "string option"
  fd_additional :: string
  fd_prefix :: "string option"

text \<open>
  \<open>context.user_data\<close>: a key that may be absent is an option; \<open>authenticated\<close> is only
  ever read with the default False, so an absent key and False are the same value here.
\<close>

record user_data =
  authenticated :: bool
  files :: "fdict list option"
  current_index :: "nat option"
  target :: "string option"

datatype conv_state = BATCH_COLLECT | BATCH_GET_PREFIX | BS_TARGET | TOC_CHOOSE | END

datatype reply = Text string | Keyboard string "(json \<times> string) list"

text \<open>
  What a handler does: the messages it replies with, the state it returns to the
  conversation handler (\<open>None\<close> keeps the current one) and the session as it leaves it, or
  the exception that ends it; the session of a handler that raises is not followed further.
\<close>

type_synonym handled = "error + (reply list \<times> conv_state option \<times> user_data)"

definition denied :: "user_data \<Rightarrow> handled" where
  "denied ud = Inr ([Text ''Access denied. Please login using /login <password>.''], None, ud)"

definition require_login :: "user_data \<Rightarrow> handled \<Rightarrow> handled" where
  "require_login ud body = (if \<not> authenticated ud then denied ud else body)"

definition login :: "string list \<Rightarrow> disk \<Rightarrow> user_data \<Rightarrow> error + (reply list \<times> user_data \<times> disk)" where
  "login args d ud =
     (case args of
        [] \<Rightarrow> Inr ([Text ''Usage: /login <password>''], ud, d)
      | a # _ \<Rightarrow>
          (case load_password d of
             Inl e \<Rightarrow> Inl e
           | Inr pw \<Rightarrow>
               if JStr a = pw
               then Inr ([Text ''Login successful!''], ud\<lparr>authenticated := True\<rparr>, d)
               else Inr ([Text ''Incorrect password.''], ud, d)))"

section \<open>The per-chat message log (src/bot.py)\<close>

record entry =
  message_id :: int
  snippet :: string

record message_in =
  in_message_id :: int
  in_text :: "string option"

record update_in =
  chat_type :: string
  chat_id :: int
  effective_message :: "message_in option"

type_synonym chat_logs = "string \<rightharpoonup> entry list"

definition snippet_of :: "string option \<Rightarrow> string" where
  "snippet_of t =
     (let s = take 30 (case t of None \<Rightarrow> '''' | Some x \<Rightarrow> x)
      in if s = [] then ''Non-text'' else s)"

definition log_messages :: "update_in \<Rightarrow> chat_logs \<Rightarrow> chat_logs" where
  "log_messages u logs =
     (if chat_type u \<notin> set [''group'', ''supergroup'', ''channel''] then logs
      else case effective_message u of
        None \<Rightarrow> logs
      | Some msg \<Rightarrow>
          (let key = str_int (chat_id u);
               e = \<lparr>message_id = in_message_id msg, snippet = snippet_of (in_text msg)\<rparr>;
               l = (case logs key of None \<Rightarrow> [] | Some old \<Rightarrow> old) @ [e]
           in logs(key \<mapsto> (if length l > 100 then drop (length l - 100) l else l))))"

fun log_all :: "update_in list \<Rightarrow> chat_logs \<Rightarrow> chat_logs" where
  "log_all [] logs = logs"
| "log_all (u # us) logs = log_all us (log_messages u logs)"

text \<open>The entries that a sequence of updates appends to the log of the chat with key \<open>c\<close>.\<close>

fun appended :: "string \<Rightarrow> update_in list \<Rightarrow> entry list" where
  "appended c [] = []"
| "appended c (u # us) =
     (if chat_type u \<in> set [''group'', ''supergroup'', ''channel''] \<and> str_int (chat_id u) = c
      then (case effective_message u of
              None \<Rightarrow> []
            | Some msg \<Rightarrow>
                [\<lparr>message_id = in_message_id msg, snippet = snippet_of (in_text msg)\<rparr>])
      else []) @ appended c us"

section \<open>Deep links and the table of contents (src/bot.py)\<close>

function split_from :: "string \<Rightarrow> string \<Rightarrow> string \<Rightarrow> string list" where
  "split_from sep cur s =
     (if s = [] then [rev cur]
      else if sep \<noteq> [] \<and> startswith s sep
        then rev cur # split_from sep [] (drop (length sep) s)
        else split_from sep (hd s # cur) (tl s))"
  by pat_completeness auto
termination
  by (relation "measure (\<lambda>(sep, cur, s). length s)") auto

declare split_from.simps [simp del]

text \<open>\<open>s.split(sep)\<close> for a non-empty separator, as both call sites have it.\<close>

definition split :: "string \<Rightarrow> string \<Rightarrow> string list" where
  "split s sep = split_from sep [] s"

definition item1 :: "'a list \<Rightarrow> error + 'a" where
  "item1 xs = (if 1 < length xs then Inr (xs ! 1) else Inl IndexError)"

definition newline :: string where
  "newline = [CHR 0x0A]"

fun join :: "string \<Rightarrow> string list \<Rightarrow> string" where
  "join sep [] = ''''"
| "join sep [x] = x"
| "join sep (x # y # ys) = x @ sep @ join sep (y # ys)"

definition message_url :: "string \<Rightarrow> int \<Rightarrow> string" where
  "message_url link mid = ''https://t.me/c/'' @ link @ ''/'' @ str_int mid"

text \<open>The identifier put into the link by \<open>toc_select_group\<close>, from the string \<open>group_id\<close>.\<close>

definition link_id :: "string \<Rightarrow> string" where
  "link_id group_id = (if startswith group_id ''-100'' then drop 4 group_id else group_id)"

text \<open>
  The identifier put into the link by \<open>bs_select_target\<close>, from \<open>sent.chat.id\<close>. The
  platform's chat id is an integer, so the test \<open>isinstance(cid, int)\<close> holds.
\<close>

definition link_cid :: "int \<Rightarrow> string" where
  "link_cid cid = (if startswith (str_int cid) ''-100'' then drop 4 (str_int cid) else str_int cid)"

definition toc_line :: "string \<Rightarrow> entry \<Rightarrow> string" where
  "toc_line lid m =
     ''[Msg '' @ str_int (message_id m) @ '': '' @ snippet m @ '']('' @
     message_url lid (message_id m) @ '')''"

definition toc_select_group :: "chat_logs \<Rightarrow> string \<Rightarrow> user_data \<Rightarrow> handled" where
  "toc_select_group logs data ud =
     require_login ud
       (case item1 (split data ''toc_group:'') of
          Inl e \<Rightarrow> Inl e
        | Inr group_id \<Rightarrow>
            (let msgs = (case logs group_id of None \<Rightarrow> [] | Some l \<Rightarrow> l);
                 text = (if msgs = [] then ''No messages logged for this group.''
                         else join newline (map (toc_line (link_id group_id)) msgs))
             in Inr ([Text text], Some END, ud)))"

section \<open>The batch-send conversation (src/bot.py)\<close>

record message =
  msg_text :: "string option"
  msg_document :: "(file_info \<times> string option) option"
  msg_photo :: "file_info list"
  msg_video :: "(file_info \<times> string option \<times> int) option"

definition pystr :: "string option \<Rightarrow> string" where
  "pystr v = (case v of None \<Rightarrow> ''None'' | Some s \<Rightarrow> s)"

definition batchsend_command :: "user_data \<Rightarrow> handled" where
  "batchsend_command ud =
     require_login ud
       (Inr ([Text ''Batch Send: Send files one by one. When finished, type /done.''],
             Some BATCH_COLLECT, ud\<lparr>files := Some []\<rparr>))"

text \<open>The dictionary that \<open>bs_collect_file\<close> appends for a message, if its type is supported.\<close>

definition collected :: "message \<Rightarrow> fdict option" where
  "collected msg =
     (case msg_document msg of
        Some (fi, name) \<Rightarrow>
          Some \<lparr>fd_file_info = fi, fd_file_type = KDocument, fd_file_name = name,
                fd_additional = '''', fd_prefix = None\<rparr>
      | None \<Rightarrow>
          if msg_photo msg \<noteq> [] then
            Some \<lparr>fd_file_info = last (msg_photo msg), fd_file_type = KPhoto,
                  fd_file_name = Some ''photo.jpg'', fd_additional = '''', fd_prefix = None\<rparr>
          else
            (case msg_video msg of
               Some (fi, name, duration) \<Rightarrow>
                 Some \<lparr>fd_file_info = fi, fd_file_type = KVideo,
                       fd_file_name =
                         (if name \<noteq> None \<and> name \<noteq> Some '''' then name else Some ''video.mp4''),
                       fd_additional = str_int duration, fd_prefix = None\<rparr>
             | None \<Rightarrow> None))"

definition bs_collect_file :: "message \<Rightarrow> user_data \<Rightarrow> handled" where
  "bs_collect_file msg ud =
     require_login ud
       (case collected msg of
          None \<Rightarrow>
            Inr ([Text ''Unsupported file type. Send a document, photo, or video.''],
                 Some BATCH_COLLECT, ud)
        | Some f \<Rightarrow>
            (let fs = (case files ud of None \<Rightarrow> [] | Some l \<Rightarrow> l) @ [f]
             in Inr ([Text (''File received. Total files: '' @ str_nat (length fs) @
                            ''. Send another file or type /done.'')],
                     Some BATCH_COLLECT, ud\<lparr>files := Some fs\<rparr>)))"

definition prefix_prompt :: "nat \<Rightarrow> fdict \<Rightarrow> reply" where
  "prefix_prompt n f =
     Text (''Batch Send: For file '' @ str_nat n @ '' ('' @ pystr (fd_file_name f) @
           ''), enter a prefix (or '-' for default).'')"

definition batch_done :: "user_data \<Rightarrow> handled" where
  "batch_done ud =
     require_login ud
       (case (case files ud of None \<Rightarrow> [] | Some l \<Rightarrow> l) of
          [] \<Rightarrow> Inr ([Text ''No files received. Batch send cancelled.''], Some END, ud)
        | current # _ \<Rightarrow>
            Inr ([prefix_prompt 1 current], Some BATCH_GET_PREFIX, ud\<lparr>current_index := Some 0\<rparr>))"

definition target_keyboard :: "(string \<times> json) list \<Rightarrow> reply" where
  "target_keyboard groups =
     Keyboard ''Batch Send: Select target group to receive all messages:''
       (map (\<lambda>(chat_id, title). (title, ''bs_target:'' @ chat_id)) groups)"

text \<open>The label that a reply gives to a file: the assignment to \<open>current["prefix"]\<close>.\<close>

definition label_of :: "string option \<Rightarrow> fdict \<Rightarrow> string option" where
  "label_of msg_text0 current =
     (let text = (case msg_text0 of
                    None \<Rightarrow> ''''
                  | Some t \<Rightarrow> if t = [] then '''' else strip t)
      in if text \<in> set [''-'', ''''] then fd_file_name current else Some text)"

definition bs_receive_prefix :: "disk \<Rightarrow> string option \<Rightarrow> user_data \<Rightarrow> handled" where
  "bs_receive_prefix d msg_text0 ud =
     require_login ud
       (let idx = (case current_index ud of None \<Rightarrow> 0 | Some i \<Rightarrow> i);
            fs = (case files ud of None \<Rightarrow> [] | Some l \<Rightarrow> l)
        in if \<not> idx < length fs then Inl IndexError
           else
             (let current = fs ! idx;
                  fs' = fs[idx := current\<lparr>fd_prefix := label_of msg_text0 current\<rparr>];
                  ud' = ud\<lparr>files := Some fs', current_index := Some (idx + 1)\<rparr>
              in if idx + 1 < length fs'
                 then Inr ([prefix_prompt (idx + 1 + 1) (fs' ! (idx + 1))],
                           Some BATCH_GET_PREFIX, ud')
                 else
                   (case load_groups d of
                      Inl e \<Rightarrow> Inl e
                    | Inr g \<Rightarrow>
                        (case dict_items g of
                           Inl e \<Rightarrow> Inl e
                         | Inr groups \<Rightarrow> Inr ([target_keyboard groups], Some BS_TARGET, ud')))))"

text \<open>
  The conversation handler gives each text reply received in state \<open>BATCH_GET_PREFIX\<close> to
  \<open>bs_receive_prefix\<close>, until the handler returns another state.
\<close>

fun feed_prefixes :: "disk \<Rightarrow> string option list \<Rightarrow> user_data \<Rightarrow> handled" where
  "feed_prefixes d [] ud = Inr ([], Some BATCH_GET_PREFIX, ud)"
| "feed_prefixes d (t # ts) ud =
     (case bs_receive_prefix d t ud of
        Inl e \<Rightarrow> Inl e
      | Inr (rs, st, ud') \<Rightarrow>
          if ts \<noteq> [] \<and> st = Some BATCH_GET_PREFIX
          then (case feed_prefixes d ts ud' of
                  Inl e \<Rightarrow> Inl e
                | Inr (rs', st', ud'') \<Rightarrow> Inr (rs @ rs', st', ud''))
          else Inr (rs, st, ud'))"

text \<open>
  The platform is a parameter: a request either raises (\<open>Inl\<close> with the text of the
  exception) or returns the sent message, and changes the state of the outside world.
\<close>

datatype request =
    SendDocument string string string
  | SendPhoto string string string
  | SendVideo string string string
  | SendMessage string string

record sent =
  sent_chat_id :: int
  sent_message_id :: int

type_synonym 'w platform = "'w \<Rightarrow> request \<Rightarrow> (string + sent) \<times> 'w"

text \<open>
  The text of an exception raised inside the loop by the code itself: the OverflowError
  and the ValueError of the two formatters.
\<close>

definition error_text :: "error \<Rightarrow> string" where
  "error_text e =
     (case e of
        OverflowError \<Rightarrow> ''integer division result too large for a float''
      | ValueError \<Rightarrow>
          ''Exceeds the limit (4300 digits) for integer string conversion; '' @
          ''use sys.set_int_max_str_digits() to increase the limit''
      | _ \<Rightarrow> '''')"

definition success_line :: "nat \<Rightarrow> string" where
  "success_line i = ''File '' @ str_nat i @ '' sent successfully.''"

definition error_line :: "nat \<Rightarrow> string \<Rightarrow> string" where
  "error_line i e = ''File '' @ str_nat i @ '' error: '' @ e"

definition file_request :: "string \<Rightarrow> fdict \<Rightarrow> request" where
  "file_request tgt f =
     (case fd_file_type f of
        KDocument \<Rightarrow>
          SendDocument tgt (file_id (fd_file_info f)) (''Forwarded file: '' @ pystr (fd_file_name f))
      | KPhoto \<Rightarrow> SendPhoto tgt (file_id (fd_file_info f)) ''Forwarded photo''
      | KVideo \<Rightarrow> SendVideo tgt (file_id (fd_file_info f)) ''Forwarded video'')"

text \<open>
  The follow-up message of \<open>bs_select_target\<close> for a file, from the message \<open>sent\<close>:
  the link, then the formatted size and duration, either of which may raise.
\<close>

definition dur_str :: "fdict \<Rightarrow> error + string" where
  "dur_str f =
     (let dur_raw = fd_additional f
      in if dur_raw \<noteq> [] \<and> isdigit dur_raw then format_duration (PStr dur_raw) else Inr '''')"

definition hyperlink_msg :: "fdict \<Rightarrow> sent \<Rightarrow> error + string" where
  "hyperlink_msg f snt =
     (let hyperlink_url = message_url (link_cid (sent_chat_id snt)) (sent_message_id snt)
      in and_then (format_file_size (file_size (fd_file_info f))) (\<lambda>size_str.
         and_then (dur_str f) (\<lambda>dur.
           (let suffix = '' (Size: '' @ size_str @
                         (if dur \<noteq> [] then '', Duration: '' @ dur else '''') @ '')'';
                hyperlink_text = pystr (fd_prefix f) @ suffix
            in Inr (''['' @ hyperlink_text @ '']('' @ hyperlink_url @ '')'')))))"

text \<open>One pass of the loop body of \<open>bs_select_target\<close>: the line appended to \<open>results\<close>.\<close>

definition send_one :: "'w platform \<Rightarrow> string \<Rightarrow> nat \<Rightarrow> fdict \<Rightarrow> 'w \<Rightarrow> string \<times> 'w" where
  "send_one api tgt i f w =
     (case api w (file_request tgt f) of
        (Inl e, w1) \<Rightarrow> (error_line i e, w1)
      | (Inr snt, w1) \<Rightarrow>
          (case hyperlink_msg f snt of
             Inl e \<Rightarrow> (error_line i (error_text e), w1)
           | Inr msg \<Rightarrow>
               (case api w1 (SendMessage tgt msg) of
                  (Inl e, w2) \<Rightarrow> (error_line i e, w2)
                | (Inr _, w2) \<Rightarrow> (success_line i, w2))))"

fun send_all :: "'w platform \<Rightarrow> string \<Rightarrow> nat \<Rightarrow> fdict list \<Rightarrow> 'w \<Rightarrow> string list \<times> 'w" where
  "send_all api tgt i [] w = ([], w)"
| "send_all api tgt i (f # fs) w =
     (case send_one api tgt i f w of
        (line, w1) \<Rightarrow> (case send_all api tgt (i + 1) fs w1 of (ls, w2) \<Rightarrow> (line # ls, w2)))"

definition bs_select_target :: "'w platform \<Rightarrow> string \<Rightarrow> user_data \<Rightarrow> 'w \<Rightarrow> handled \<times> 'w" where
  "bs_select_target api data ud w =
     (if \<not> authenticated ud then (denied ud, w)
      else case item1 (split data ''bs_target:'') of
        Inl e \<Rightarrow> (Inl e, w)
      | Inr tgt \<Rightarrow>
          (case send_all api tgt 1 (case files ud of None \<Rightarrow> [] | Some l \<Rightarrow> l) w of
             (results, w') \<Rightarrow>
               (Inr ([Text (''Batch Send Completed:'' @ newline @ join newline results)],
                     Some END, ud\<lparr>target := Some tgt\<rparr>), w')))"

section \<open>The lookup bot (src/netlify/functions/bot.py)\<close>

text \<open>
  A search result is a JSON document. \<open>first_match\<close> is the loop of \<open>select_best_match\<close>;
  reading the title of a result that is no dict, or lowering a title that is no string, raises.
\<close>

fun first_match :: "json list \<Rightarrow> string \<Rightarrow> error + json option" where
  "first_match [] query_lower = Inr None"
| "first_match (item # rest) query_lower =
     (case dict_get item ''title'' (JStr '''') of
        Inl e \<Rightarrow> Inl e
      | Inr (JStr t) \<Rightarrow>
          (let title = lower t
           in if title = query_lower \<or> contains title query_lower then Inr (Some item)
              else first_match rest query_lower)
      | Inr _ \<Rightarrow> Inl AttributeError)"

definition select_best_match :: "json list \<Rightarrow> string \<Rightarrow> error + json option" where
  "select_best_match results query =
     (case first_match results (lower query) of
        Inl e \<Rightarrow> Inl e
      | Inr (Some item) \<Rightarrow> Inr (Some item)
      | Inr None \<Rightarrow> Inr (case results of [] \<Rightarrow> None | r # _ \<Rightarrow> Some r))"

fun truthy :: "json option \<Rightarrow> bool" where
  "truthy None = False"
| "truthy (Some JNull) = False"
| "truthy (Some (JBool b)) = b"
| "truthy (Some (JInt n)) = (n \<noteq> 0)"
| "truthy (Some (JStr s)) = (s \<noteq> [])"
| "truthy (Some (JList l)) = (l \<noteq> [])"
| "truthy (Some (JDict kv)) = (kv \<noteq> [])"

text \<open>
  The two requests of \<open>get_media_info\<close> are parameters: \<open>search\<close> is \<open>search_media\<close>
  (query, then media type), and \<open>build\<close> is the assembly of the result dictionary from the
  media type and the best match, which includes the request for the characters.
\<close>

definition best_of :: "(string \<Rightarrow> string \<Rightarrow> error + json list) \<Rightarrow> string \<Rightarrow> string
    \<Rightarrow> error + json option" where
  "best_of search query media =
     (case search query media of
        Inl e \<Rightarrow> Inl e
      | Inr results \<Rightarrow> if results \<noteq> [] then select_best_match results query else Inr None)"

definition get_media_info :: "(string \<Rightarrow> string \<Rightarrow> error + json list)
    \<Rightarrow> (string \<Rightarrow> json \<Rightarrow> error + 'i) \<Rightarrow> string \<Rightarrow> error + 'i option" where
  "get_media_info search build query =
     (case best_of search query ''anime'' of
        Inl e \<Rightarrow> Inl e
      | Inr best \<Rightarrow>
          if truthy best then
            (case build ''Anime'' (the best) of Inl e \<Rightarrow> Inl e | Inr info \<Rightarrow> Inr (Some info))
          else
            (case best_of search query ''manga'' of
               Inl e \<Rightarrow> Inl e
             | Inr best2 \<Rightarrow>
                 if truthy best2 then
                   (case build ''Manga'' (the best2) of
                      Inl e \<Rightarrow> Inl e
                    | Inr info \<Rightarrow> Inr (Some info))
                 else Inr None))"

record 'i lookup_data =
  ld_query :: "string option"
  ld_info :: "'i option"
  ld_images :: "bool option"
  ld_translate :: "bool option"
  ld_season :: "int option"

text \<open>
  \<open>ask_season_handler\<close> up to the point where the reply is assembled: the result that the
  reply is built from, and the session as the handler leaves it.
\<close>

definition ask_season_handler :: "(string \<Rightarrow> string \<Rightarrow> error + json list)
    \<Rightarrow> (string \<Rightarrow> json \<Rightarrow> error + 'i) \<Rightarrow> string \<Rightarrow> 'i lookup_data
    \<Rightarrow> error + ('i \<times> 'i lookup_data)" where
  "ask_season_handler search build text ud =
     (let answer = lower text;
          season = (if answer = ''skip'' then None
                    else case int_of_str answer of Inl _ \<Rightarrow> None | Inr n \<Rightarrow> Some n);
          ud1 = ud\<lparr>ld_season := season\<rparr>
      in case ld_query ud1 of
           None \<Rightarrow> Inl KeyError
         | Some query \<Rightarrow>
             (case ld_info ud1 of
                None \<Rightarrow> Inl KeyError
              | Some info \<Rightarrow>
                  if season \<noteq> None \<and> season \<noteq> Some 0 then
                    and_then (py_str (the season)) (\<lambda>digits.
                      (case get_media_info search build (query @ '' season '' @ digits) of
                         Inl e \<Rightarrow> Inl e
                       | Inr None \<Rightarrow> Inr (info, ud1)
                       | Inr (Some new_info) \<Rightarrow>
                           Inr (new_info, ud1\<lparr>ld_info := Some new_info\<rparr>)))
                  else Inr (info, ud1)))"

section \<open>Decimal strings\<close>

lemma is_digit_digit_char: "is_digit (digit_char d)"
proof -
  have "d mod 10 < length ''0123456789''" by simp
  then have "''0123456789'' ! (d mod 10) \<in> set ''0123456789''" by (rule nth_mem)
  then show ?thesis unfolding is_digit_def digit_char_def .
qed

lemma is_digit_not_colon: "is_digit c \<Longrightarrow> c \<noteq> CHR '':''"
  by (auto simp: is_digit_def)

lemma str_nat_digits: "list_all is_digit (str_nat n)"
proof (induction n rule: str_nat.induct)
  case (1 n)
  show ?case
  proof (cases "n < 10")
    case True
    then show ?thesis by (simp add: str_nat.simps [of n] is_digit_digit_char)
  next
    case False
    with 1 show ?thesis by (simp add: str_nat.simps [of n] is_digit_digit_char)
  qed
qed

lemma str_nat_nonempty: "str_nat n \<noteq> []"
  by (simp add: str_nat.simps [of n])

lemma str_nat_small: "n < 10 \<Longrightarrow> str_nat n = [digit_char n]"
  by (simp add: str_nat.simps [of n])

lemma str_nat_two: "10 \<le> n \<Longrightarrow> n < 100 \<Longrightarrow> str_nat n = two_digits n"
  by (simp add: str_nat.simps [of n] str_nat_small two_digits_def)

lemma digit_char_zero: "digit_char 0 = CHR ''0''"
  by (simp add: digit_char_def)

lemma two_digits_digits: "list_all is_digit (two_digits n)"
  by (simp add: two_digits_def is_digit_digit_char)

lemma zero_pad2_two_digits: "n < 100 \<Longrightarrow> zero_pad2 (str_nat n) = two_digits n"
proof (cases "n < 10")
  case True
  then show ?thesis
    by (simp add: zero_pad2_def str_nat_small two_digits_def digit_char_zero)
next
  case False
  assume "n < 100"
  with False have "str_nat n = two_digits n" by (simp add: str_nat_two)
  then show ?thesis by (simp add: zero_pad2_def two_digits_def)
qed

lemma zero_pad2_digits: "list_all is_digit (zero_pad2 (str_nat n))"
  using str_nat_digits [of n] is_digit_digit_char [of 0]
  by (simp add: zero_pad2_def digit_char_zero)

lemma zero_pad2_length: "2 \<le> length (zero_pad2 (str_nat n))"
proof (cases "str_nat n")
  case Nil
  then show ?thesis using str_nat_nonempty [of n] by simp
next
  case (Cons a l)
  then show ?thesis by (cases l) (simp_all add: zero_pad2_def)
qed

lemma count_colon_digits: "list_all is_digit s \<Longrightarrow> filter (\<lambda>c. c = CHR '':'') s = []"
  by (induction s) (auto dest: is_digit_not_colon)

lemma hundred_below_limit: "(100::int) \<le> 10 ^ max_str_digits"
proof -
  have "(10::int) ^ 2 \<le> 10 ^ max_str_digits"
    by (rule power_increasing) (simp_all add: max_str_digits_def)
  then show ?thesis by simp
qed

lemma py_str_fits: "\<bar>i\<bar> < 10 ^ max_str_digits \<Longrightarrow> py_str i = Inr (str_int i)"
  by (simp add: py_str_def)

lemma py_str_exceeds: "10 ^ max_str_digits \<le> \<bar>i\<bar> \<Longrightarrow> py_str i = Inl ValueError"
  by (simp add: py_str_def)

lemma fmt_02d_fits:
  "0 \<le> i \<Longrightarrow> i < 10 ^ max_str_digits \<Longrightarrow> fmt_02d i = Inr (zero_pad2 (str_nat (nat i)))"
  by (simp add: fmt_02d_def py_str_fits str_int_def)

lemma fmt_02d_exceeds: "10 ^ max_str_digits \<le> i \<Longrightarrow> fmt_02d i = Inl ValueError"
proof -
  assume a: "10 ^ max_str_digits \<le> i"
  have "(0::int) \<le> 10 ^ max_str_digits" by simp
  then have "10 ^ max_str_digits \<le> \<bar>i\<bar>" using a by linarith
  then show ?thesis by (simp add: fmt_02d_def py_str_exceeds)
qed

lemma fmt_02d_two_digits:
  assumes "0 \<le> i" and "i < 100"
  shows "fmt_02d i = Inr (two_digits (nat i))"
proof -
  have "i < 10 ^ max_str_digits" using assms(2) hundred_below_limit by linarith
  then have "fmt_02d i = Inr (zero_pad2 (str_nat (nat i)))" using assms(1) by (simp add: fmt_02d_fits)
  moreover have "nat i < 100" using assms by simp
  ultimately show ?thesis by (simp add: zero_pad2_two_digits)
qed

section \<open>Duration formatting\<close>

lemma hours_below:
  assumes "s < 3600 * x"
  shows "s div 3600 < (x::int)"
proof -
  have "3600 * (s div 3600) \<le> s" by simp
  then have "3600 * (s div 3600) < 3600 * x" using assms by linarith
  then show ?thesis by simp
qed

lemma hours_above:
  assumes "3600 * x \<le> s"
  shows "(x::int) \<le> s div 3600"
proof -
  have "(3600 * x) div 3600 \<le> s div 3600" using assms by (rule zdiv_mono1) simp
  then show ?thesis by simp
qed

text \<open>
  Claim C4, amended. For a number of seconds \<open>s\<close> from 0 to below \<open>3600 * 10 ^ 4300\<close>,
  \<open>format_duration\<close> writes the minutes and the seconds as exactly two decimal digits
  each, separated by a colon; the hour field, at least two digits and a colon, comes in
  front exactly when \<open>s \<ge> 3600\<close>, so the result has one colon when \<open>s < 3600\<close> and two
  otherwise. From \<open>3600 * 10 ^ 4300\<close> seconds on the hours have more than 4300 digits
  and the function raises ValueError.
\<close>

theorem format_duration_fields:
  assumes "0 \<le> s"
  shows "(s < 3600 * 10 ^ max_str_digits \<longrightarrow>
           format_duration (PInt s) =
             Inr ((if s < 3600 then [] else zero_pad2 (str_nat (nat (s div 3600))) @ '':'')
                  @ two_digits (nat ((s mod 3600) div 60)) @ '':''
                  @ two_digits (nat (s mod 60)))
           \<and> length (filter (\<lambda>c. c = CHR '':'')
                ((if s < 3600 then [] else zero_pad2 (str_nat (nat (s div 3600))) @ '':'')
                  @ two_digits (nat ((s mod 3600) div 60)) @ '':''
                  @ two_digits (nat (s mod 60))))
              = (if s < 3600 then 1 else 2))
       \<and> (3600 * 10 ^ max_str_digits \<le> s \<longrightarrow> format_duration (PInt s) = Inl ValueError)
       \<and> list_all is_digit (zero_pad2 (str_nat (nat (s div 3600))))
       \<and> 2 \<le> length (zero_pad2 (str_nat (nat (s div 3600))))
       \<and> list_all is_digit (two_digits (nat ((s mod 3600) div 60)))
       \<and> list_all is_digit (two_digits (nat (s mod 60)))"
proof -
  let ?h = "s div 3600" and ?m = "(s mod 3600) div 60" and ?c = "s mod 60"
  let ?hs = "zero_pad2 (str_nat (nat ?h))"
  let ?E = "(if s < 3600 then [] else ?hs @ '':'')
        @ two_digits (nat ?m) @ '':'' @ two_digits (nat ?c)"
  have m: "0 \<le> ?m" "?m < 100" by simp_all
  have c: "0 \<le> ?c" "?c < 100" by simp_all
  have h: "0 \<le> ?h" using assms by simp
  have hpos: "(?h > 0) = (\<not> s < 3600)" using assms by auto
  have fm: "fmt_02d ?m = Inr (two_digits (nat ?m))" using m by (rule fmt_02d_two_digits)
  have fc: "fmt_02d ?c = Inr (two_digits (nat ?c))" using c by (rule fmt_02d_two_digits)
  have dh: "list_all is_digit ?hs" by (rule zero_pad2_digits)
  have dm: "list_all is_digit (two_digits (nat ?m))" by (rule two_digits_digits)
  have dc: "list_all is_digit (two_digits (nat ?c))" by (rule two_digits_digits)
  have lh: "2 \<le> length ?hs" by (rule zero_pad2_length)
  have cnt: "length (filter (\<lambda>c. c = CHR '':'') ?E) = (if s < 3600 then 1 else 2)"
    by (simp add: count_colon_digits [OF dh] count_colon_digits [OF dm]
          count_colon_digits [OF dc])
  have fits: "s < 3600 * 10 ^ max_str_digits \<longrightarrow> format_duration (PInt s) = Inr ?E"
  proof
    assume "s < 3600 * 10 ^ max_str_digits"
    then have "?h < 10 ^ max_str_digits" by (rule hours_below)
    then have fh: "fmt_02d ?h = Inr ?hs" using h by (simp add: fmt_02d_fits)
    show "format_duration (PInt s) = Inr ?E"
      unfolding format_duration_def Let_def
      by (simp only: py_int.simps sum.case hpos fm fc fh and_then_def) simp
  qed
  have over: "3600 * 10 ^ max_str_digits \<le> s \<longrightarrow> format_duration (PInt s) = Inl ValueError"
  proof
    assume a: "3600 * 10 ^ max_str_digits \<le> s"
    then have big: "10 ^ max_str_digits \<le> ?h" by (rule hours_above)
    then have fh: "fmt_02d ?h = Inl ValueError" by (rule fmt_02d_exceeds)
    have "(0::int) < 10 ^ max_str_digits" by simp
    then have pos: "?h > 0" using big by linarith
    show "format_duration (PInt s) = Inl ValueError"
      unfolding format_duration_def Let_def
      using pos by (simp add: fh and_then_def)
  qed
  show ?thesis using fits cnt over dh lh dm dc by blast
qed

theorem format_duration_fields_witness:
  "format_duration (PInt 3725) = Inr ''01:02:05'' \<and> format_duration (PInt 59) = Inr ''00:59''"
proof -
  have lim: "(3725::int) < 3600 * 10 ^ max_str_digits" "(59::int) < 3600 * 10 ^ max_str_digits"
    using hundred_below_limit by simp_all
  have a: "format_duration (PInt 3725) =
      Inr ((if (3725::int) < 3600 then [] else zero_pad2 (str_nat (nat (3725 div 3600))) @ '':'')
           @ two_digits (nat ((3725 mod 3600) div 60)) @ '':'' @ two_digits (nat (3725 mod 60)))"
    using format_duration_fields [of 3725] lim(1) by simp
  have b: "format_duration (PInt 59) =
      Inr ((if (59::int) < 3600 then [] else zero_pad2 (str_nat (nat (59 div 3600))) @ '':'')
           @ two_digits (nat ((59 mod 3600) div 60)) @ '':'' @ two_digits (nat (59 mod 60)))"
    using format_duration_fields [of 59] lim(2) by simp
  show ?thesis
    unfolding a b
    by (simp add: two_digits_def digit_char_def zero_pad2_def str_nat.simps)
qed

text \<open>
  The claim as stated, for every \<open>s \<ge> 0\<close>, fails where the hours no longer convert to a
  string.
\<close>

theorem format_duration_digit_limit:
  "format_duration (PInt (3600 * 10 ^ max_str_digits)) = Inl ValueError"
proof -
  have fh: "fmt_02d (10 ^ max_str_digits) = Inl ValueError"
    by (rule fmt_02d_exceeds) simp
  show ?thesis
    unfolding format_duration_def Let_def by (simp add: fh and_then_def)
qed

section \<open>Reading the stores\<close>

text \<open>
  Claim C8. Reading the two stores never raises. When the group-registry file is missing,
  unreadable or not a JSON text, \<open>load_groups\<close> returns the empty mapping; when the
  password file is missing, unreadable, not a JSON text, a JSON object without the key
  \<open>password\<close>, or a document that is no object at all, \<open>load_password\<close> returns the
  string \<open>admin\<close>.
\<close>

theorem load_fallbacks:
  "(groups_file d \<in> {Missing, Unreadable, Corrupt} \<longrightarrow> load_groups d = Inr (JDict []))
   \<and> (password_file d \<in> {Missing, Unreadable, Corrupt} \<longrightarrow> load_password d = Inr (JStr ''admin''))
   \<and> (password_file d = Holds (JDict kv) \<and> map_of kv ''password'' = None
        \<longrightarrow> load_password d = Inr (JStr ''admin''))
   \<and> (password_file d = Holds j \<and> (\<forall>kv'. j \<noteq> JDict kv') \<longrightarrow> load_password d = Inr (JStr ''admin''))
   \<and> (\<exists>g. load_groups d = Inr g) \<and> (\<exists>p. load_password d = Inr p)"
proof -
  have g: "groups_file d \<in> {Missing, Unreadable, Corrupt} \<longrightarrow> load_groups d = Inr (JDict [])"
    by (auto simp: load_groups_def try_except_def)
  have p: "password_file d \<in> {Missing, Unreadable, Corrupt} \<longrightarrow> load_password d = Inr (JStr ''admin'')"
    by (auto simp: load_password_def try_except_def)
  have k: "password_file d = Holds (JDict kv) \<and> map_of kv ''password'' = None
        \<longrightarrow> load_password d = Inr (JStr ''admin'')"
    by (simp add: load_password_def try_except_def)
  have n: "password_file d = Holds j \<and> (\<forall>kv'. j \<noteq> JDict kv') \<longrightarrow> load_password d = Inr (JStr ''admin'')"
    by (cases j) (simp_all add: load_password_def try_except_def)
  have eg: "\<exists>g. load_groups d = Inr g"
    by (simp add: load_groups_def try_except_def split: sum.splits)
  have ep: "\<exists>p. load_password d = Inr p"
    by (simp add: load_password_def try_except_def split: sum.splits)
  show ?thesis using g p k n eg ep by blast
qed

theorem load_fallbacks_witness:
  "load_groups \<lparr>groups_file = Corrupt, password_file = Holds (JDict [(''pass'', JStr ''x'')])\<rparr>
     = Inr (JDict [])
   \<and> load_password \<lparr>groups_file = Corrupt, password_file = Holds (JDict [(''pass'', JStr ''x'')])\<rparr>
     = Inr (JStr ''admin'')
   \<and> load_password \<lparr>groups_file = Corrupt, password_file = Missing\<rparr> = Inr (JStr ''admin'')
   \<and> load_password \<lparr>groups_file = Corrupt, password_file = Holds (JList [])\<rparr> = Inr (JStr ''admin'')"
  using load_fallbacks [of "\<lparr>groups_file = Corrupt, password_file = Holds (JDict [(''pass'', JStr ''x'')])\<rparr>"
          "[(''pass'', JStr ''x'')]" JNull]
        load_fallbacks [of "\<lparr>groups_file = Corrupt, password_file = Missing\<rparr>" "[]" JNull]
        load_fallbacks [of "\<lparr>groups_file = Corrupt, password_file = Holds (JList [])\<rparr>" "[]" "JList []"]
  by simp

section \<open>Login\<close>

text \<open>
  Claim C7, amended. A login whose password argument differs from the stored credential
  answers ``Incorrect password.'' and returns the session and the stores as they were: the
  credential file is unchanged and the authenticated flag keeps its value, so a user who
  was not authenticated is still not authenticated, and a session authenticated earlier
  stays authenticated (nothing in the code clears the flag). A login that turns the flag
  on has given the stored password.
\<close>

theorem login_incorrect_password:
  assumes "load_password d = Inr pw" and "JStr a \<noteq> pw"
  shows "login (a # rest) d ud = Inr ([Text ''Incorrect password.''], ud, d)
         \<and> (\<forall>rs ud' d'. login (a # rest) d ud = Inr (rs, ud', d') \<longrightarrow>
               d' = d \<and> authenticated ud' = authenticated ud
               \<and> (\<not> authenticated ud \<longrightarrow> \<not> authenticated ud'))
         \<and> (\<forall>b args rs ud' d'. login (b # args) d ud = Inr (rs, ud', d')
               \<and> \<not> authenticated ud \<and> authenticated ud' \<longrightarrow> JStr b = pw)"
proof -
  have 1: "login (a # rest) d ud = Inr ([Text ''Incorrect password.''], ud, d)"
    using assms by (simp add: login_def)
  have 3: "\<forall>b args rs ud' d'. login (b # args) d ud = Inr (rs, ud', d')
               \<and> \<not> authenticated ud \<and> authenticated ud' \<longrightarrow> JStr b = pw"
    using assms(1) by (auto simp: login_def split: if_splits)
  show ?thesis using 1 3 by simp
qed

theorem login_incorrect_password_witness:
  "login [''guess''] \<lparr>groups_file = Missing, password_file = Holds (JDict [(''password'', JStr ''s3'')])\<rparr>
     \<lparr>authenticated = False, files = None, current_index = None, target = None\<rparr>
   = Inr ([Text ''Incorrect password.''],
          \<lparr>authenticated = False, files = None, current_index = None, target = None\<rparr>,
          \<lparr>groups_file = Missing, password_file = Holds (JDict [(''password'', JStr ''s3'')])\<rparr>)"
proof -
  let ?d = "\<lparr>groups_file = Missing, password_file = Holds (JDict [(''password'', JStr ''s3'')])\<rparr>"
  have lp: "load_password ?d = Inr (JStr ''s3'')"
    by (simp add: load_password_def try_except_def)
  have ne: "JStr ''guess'' \<noteq> JStr ''s3''" by simp
  show ?thesis using login_incorrect_password [OF lp ne, of "[]"] by simp
qed

text \<open>
  The claim as stated, that every login with a wrong password leaves the session
  unauthenticated, fails for a session that was authenticated before: the flag stays set.
\<close>

theorem login_keeps_authenticated:
  "login [''guess''] \<lparr>groups_file = Missing, password_file = Missing\<rparr>
     \<lparr>authenticated = True, files = None, current_index = None, target = None\<rparr>
   = Inr ([Text ''Incorrect password.''],
          \<lparr>authenticated = True, files = None, current_index = None, target = None\<rparr>,
          \<lparr>groups_file = Missing, password_file = Missing\<rparr>)"
  by (simp add: login_def load_password_def try_except_def)

section \<open>Deep links\<close>

lemma startswith_100: "startswith s ''-100'' \<Longrightarrow> s = ''-100'' @ drop 4 s"
proof -
  assume a: "startswith s ''-100''"
  have l: "length ''-100'' = 4" by simp
  have t: "take 4 s = ''-100''" using a unfolding startswith_def l .
  have "s = take 4 s @ drop 4 s" by simp
  then show ?thesis by (simp only: t)
qed

lemma toc_select_group_links:
  assumes "authenticated ud" and "item1 (split data ''toc_group:'') = Inr g"
    and "logs g = Some msgs" and "msgs \<noteq> []"
  shows "toc_select_group logs data ud =
    Inr ([Text (join newline (map (\<lambda>m.
            ''[Msg '' @ str_int (message_id m) @ '': '' @ snippet m @ ''](https://t.me/c/''
            @ (if startswith g ''-100'' then drop 4 g else g)
            @ ''/'' @ str_int (message_id m) @ '')'') msgs))],
         Some END, ud)"
proof -
  have "toc_line (link_id g) = (\<lambda>m.
            ''[Msg '' @ str_int (message_id m) @ '': '' @ snippet m @ ''](https://t.me/c/''
            @ (if startswith g ''-100'' then drop 4 g else g)
            @ ''/'' @ str_int (message_id m) @ '')'')"
    by (rule ext) (simp add: toc_line_def message_url_def link_id_def)
  then show ?thesis
    using assms by (simp add: toc_select_group_def require_login_def Let_def)
qed

lemma send_one_link:
  assumes "api w (file_request tgt f) = (Inr snt, w1)"
    and "format_file_size (file_size (fd_file_info f)) = Inr sz" and "dur_str f = Inr du"
  shows "send_one api tgt i f w =
    (case api w1 (SendMessage tgt
            (''['' @ pystr (fd_prefix f) @ '' (Size: '' @ sz
             @ (if du \<noteq> [] then '', Duration: '' @ du else '''') @ '')''
             @ ''](https://t.me/c/''
             @ (if startswith (str_int (sent_chat_id snt)) ''-100''
                then drop 4 (str_int (sent_chat_id snt)) else str_int (sent_chat_id snt))
             @ ''/'' @ str_int (sent_message_id snt) @ '')'')) of
       (Inl e, w2) \<Rightarrow> (error_line i e, w2)
     | (Inr x, w2) \<Rightarrow> (success_line i, w2))"
proof -
  have m: "hyperlink_msg f snt =
      Inr (''['' @ pystr (fd_prefix f) @ '' (Size: '' @ sz
             @ (if du \<noteq> [] then '', Duration: '' @ du else '''') @ '')''
             @ ''](https://t.me/c/''
             @ (if startswith (str_int (sent_chat_id snt)) ''-100''
                then drop 4 (str_int (sent_chat_id snt)) else str_int (sent_chat_id snt))
             @ ''/'' @ str_int (sent_message_id snt) @ '')'')"
    using assms(2,3)
    by (simp add: hyperlink_msg_def Let_def and_then_def message_url_def link_cid_def)
  show ?thesis by (simp only: send_one_def assms(1) m prod.case sum.case)
qed

lemma bs_select_target_single:
  assumes "authenticated ud" and "files ud = Some [f]"
    and "item1 (split data ''bs_target:'') = Inr tgt"
  shows "bs_select_target api data ud w =
    (Inr ([Text (''Batch Send Completed:'' @ newline @ fst (send_one api tgt 1 f w))],
          Some END, ud\<lparr>target := Some tgt\<rparr>),
     snd (send_one api tgt 1 f w))"
  using assms by (simp add: bs_select_target_def split: prod.splits)

text \<open>
  Claim C5. Both handlers that build a deep link put the identifier into it without
  exactly the four characters \<open>-100\<close> when its string starts with them, and as it is
  otherwise. \<open>toc_select_group\<close> answers with one line per logged message, each with the
  link \<open>https://t.me/c/\<close>, the identifier of the chosen group so rewritten, a slash and
  the message id. The loop body of \<open>bs_select_target\<close>, once the file is delivered and
  size and duration are formatted, sends exactly the message whose link is built in this
  way from the chat id of the delivered message, and its result line is decided by that
  request; \<open>bs_select_target\<close> runs this loop body on the files of the session with the
  chosen target.
\<close>

theorem deep_link_prefix:
  "(authenticated ud \<and> item1 (split data ''toc_group:'') = Inr g \<and> logs g = Some msgs
      \<and> msgs \<noteq> [] \<longrightarrow>
      toc_select_group logs data ud =
        Inr ([Text (join newline (map (\<lambda>m.
                ''[Msg '' @ str_int (message_id m) @ '': '' @ snippet m @ ''](https://t.me/c/''
                @ (if startswith g ''-100'' then drop 4 g else g)
                @ ''/'' @ str_int (message_id m) @ '')'') msgs))],
             Some END, ud))
   \<and> (startswith g ''-100'' \<longrightarrow> g = ''-100'' @ drop 4 g)
   \<and> (api w (file_request tgt f) = (Inr snt, w1)
      \<and> format_file_size (file_size (fd_file_info f)) = Inr sz \<and> dur_str f = Inr du \<longrightarrow>
      send_one api tgt i f w =
        (case api w1 (SendMessage tgt
                (''['' @ pystr (fd_prefix f) @ '' (Size: '' @ sz
                 @ (if du \<noteq> [] then '', Duration: '' @ du else '''') @ '')''
                 @ ''](https://t.me/c/''
                 @ (if startswith (str_int (sent_chat_id snt)) ''-100''
                    then drop 4 (str_int (sent_chat_id snt)) else str_int (sent_chat_id snt))
                 @ ''/'' @ str_int (sent_message_id snt) @ '')'')) of
           (Inl e, w2) \<Rightarrow> (error_line i e, w2)
         | (Inr x, w2) \<Rightarrow> (success_line i, w2)))
   \<and> (startswith (str_int cid) ''-100'' \<longrightarrow> str_int cid = ''-100'' @ drop 4 (str_int cid))
   \<and> (authenticated ud \<and> files ud = Some [f] \<and> item1 (split data' ''bs_target:'') = Inr tgt
      \<longrightarrow>
      bs_select_target api data' ud w =
        (Inr ([Text (''Batch Send Completed:'' @ newline @ fst (send_one api tgt 1 f w))],
              Some END, ud\<lparr>target := Some tgt\<rparr>),
         snd (send_one api tgt 1 f w)))"
proof (intro conjI impI)
  assume "authenticated ud \<and> item1 (split data ''toc_group:'') = Inr g \<and> logs g = Some msgs
      \<and> msgs \<noteq> []"
  then show "toc_select_group logs data ud =
        Inr ([Text (join newline (map (\<lambda>m.
                ''[Msg '' @ str_int (message_id m) @ '': '' @ snippet m @ ''](https://t.me/c/''
                @ (if startswith g ''-100'' then drop 4 g else g)
                @ ''/'' @ str_int (message_id m) @ '')'') msgs))],
             Some END, ud)"
    using toc_select_group_links [of ud data g logs msgs] by blast
next
  assume "startswith g ''-100''"
  then show "g = ''-100'' @ drop 4 g" by (rule startswith_100)
next
  assume h: "api w (file_request tgt f) = (Inr snt, w1)
      \<and> format_file_size (file_size (fd_file_info f)) = Inr sz \<and> dur_str f = Inr du"
  show "send_one api tgt i f w =
        (case api w1 (SendMessage tgt
                (''['' @ pystr (fd_prefix f) @ '' (Size: '' @ sz
                 @ (if du \<noteq> [] then '', Duration: '' @ du else '''') @ '')''
                 @ ''](https://t.me/c/''
                 @ (if startswith (str_int (sent_chat_id snt)) ''-100''
                    then drop 4 (str_int (sent_chat_id snt)) else str_int (sent_chat_id snt))
                 @ ''/'' @ str_int (sent_message_id snt) @ '')'')) of
           (Inl e, w2) \<Rightarrow> (error_line i e, w2)
         | (Inr x, w2) \<Rightarrow> (success_line i, w2))"
    by (rule send_one_link) (simp_all add: h)
next
  assume "startswith (str_int cid) ''-100''"
  then show "str_int cid = ''-100'' @ drop 4 (str_int cid)" by (rule startswith_100)
next
  assume h: "authenticated ud \<and> files ud = Some [f] \<and> item1 (split data' ''bs_target:'') = Inr tgt"
  show "bs_select_target api data' ud w =
        (Inr ([Text (''Batch Send Completed:'' @ newline @ fst (send_one api tgt 1 f w))],
              Some END, ud\<lparr>target := Some tgt\<rparr>),
         snd (send_one api tgt 1 f w))"
    by (rule bs_select_target_single) (simp_all add: h)
qed

theorem deep_link_prefix_witness:
  "toc_select_group [''-1001234'' \<mapsto> [\<lparr>message_id = 7, snippet = ''hi''\<rparr>]] ''toc_group:-1001234''
     \<lparr>authenticated = True, files = None, current_index = None, target = None\<rparr>
   = Inr ([Text ''[Msg 7: hi](https://t.me/c/1234/7)''], Some END,
          \<lparr>authenticated = True, files = None, current_index = None, target = None\<rparr>)
   \<and> toc_select_group [''-4321'' \<mapsto> [\<lparr>message_id = 7, snippet = ''hi''\<rparr>]] ''toc_group:-4321''
     \<lparr>authenticated = True, files = None, current_index = None, target = None\<rparr>
   = Inr ([Text ''[Msg 7: hi](https://t.me/c/-4321/7)''], Some END,
          \<lparr>authenticated = True, files = None, current_index = None, target = None\<rparr>)
   \<and> send_one (\<lambda>w r. (Inr \<lparr>sent_chat_id = - 1001234, sent_message_id = 9\<rparr>, r # w))
       ''-1001234'' 1
       \<lparr>fd_file_info = \<lparr>file_id = ''d2'', file_size = None\<rparr>, fd_file_type = KDocument,
        fd_file_name = Some ''a.pdf'', fd_additional = '''', fd_prefix = Some ''b''\<rparr> []
   = (success_line 1,
      [SendMessage ''-1001234'' ''[b (Size: Unknown)](https://t.me/c/1234/9)'',
       SendDocument ''-1001234'' ''d2'' ''Forwarded file: a.pdf''])"
proof -
  let ?ud = "\<lparr>authenticated = True, files = None, current_index = None, target = None\<rparr>"
  let ?e = "\<lparr>message_id = 7, snippet = ''hi''\<rparr>"
  let ?f = "\<lparr>fd_file_info = \<lparr>file_id = ''d2'', file_size = None\<rparr>, fd_file_type = KDocument,
        fd_file_name = Some ''a.pdf'', fd_additional = '''', fd_prefix = Some ''b''\<rparr>"
  let ?api = "\<lambda>(w::request list) r. (Inr \<lparr>sent_chat_id = - 1001234, sent_message_id = 9\<rparr>, r # w)"
  let ?snt = "\<lparr>sent_chat_id = - 1001234, sent_message_id = 9\<rparr>"
  let ?rq = "SendDocument ''-1001234'' ''d2'' ''Forwarded file: a.pdf''"
  have n7: "str_int 7 = ''7''" by (simp add: str_int_def str_nat.simps digit_char_def)
  have n9: "str_int 9 = ''9''" by (simp add: str_int_def str_nat.simps digit_char_def)
  have nc: "str_int (- 1001234) = ''-1001234''"
    by (simp add: str_int_def str_nat.simps digit_char_def)
  have sp1: "item1 (split ''toc_group:-1001234'' ''toc_group:'') = Inr ''-1001234''" by code_simp
  have sp2: "item1 (split ''toc_group:-4321'' ''toc_group:'') = Inr ''-4321''" by code_simp
  have st1: "startswith ''-1001234'' ''-100''" by (simp add: startswith_def)
  have st2: "\<not> startswith ''-4321'' ''-100''" by (simp add: startswith_def)
  note i1 = deep_link_prefix [where ud = ?ud and data = "''toc_group:-1001234''"
      and g = "''-1001234''" and logs = "[''-1001234'' \<mapsto> [?e]]" and msgs = "[?e]"]
  note i2 = deep_link_prefix [where ud = ?ud and data = "''toc_group:-4321''"
      and g = "''-4321''" and logs = "[''-4321'' \<mapsto> [?e]]" and msgs = "[?e]"]
  have a: "toc_select_group [''-1001234'' \<mapsto> [?e]] ''toc_group:-1001234'' ?ud
      = Inr ([Text ''[Msg 7: hi](https://t.me/c/1234/7)''], Some END, ?ud)"
    using i1 [THEN conjunct1] sp1 st1 by (simp add: n7)
  have b: "toc_select_group [''-4321'' \<mapsto> [?e]] ''toc_group:-4321'' ?ud
      = Inr ([Text ''[Msg 7: hi](https://t.me/c/-4321/7)''], Some END, ?ud)"
    using i2 [THEN conjunct1] sp2 st2 by (simp add: n7)
  have rq: "?api [] (file_request ''-1001234'' ?f) = (Inr ?snt, [?rq])"
    by (simp add: file_request_def pystr_def)
  have sz: "format_file_size (file_size (fd_file_info ?f)) = Inr ''Unknown''"
    by (simp add: format_file_size_def)
  have du: "dur_str ?f = Inr ''''" by (simp add: dur_str_def)
  note i3 = deep_link_prefix [where api = ?api and w = "[]" and tgt = "''-1001234''" and f = ?f
      and snt = ?snt and ?w1.0 = "[?rq]" and sz = "''Unknown''" and du = "''''" and i = 1]
  have c: "send_one ?api ''-1001234'' 1 ?f []
      = (success_line 1,
         [SendMessage ''-1001234'' ''[b (Size: Unknown)](https://t.me/c/1234/9)'', ?rq])"
    using i3 [THEN conjunct2, THEN conjunct2, THEN conjunct1] rq sz du
    by (simp add: nc n9 startswith_def pystr_def)
  show ?thesis by (intro conjI a b c)
qed

section \<open>Labels\<close>

lemma strip_Nil: "strip [] = []"
  by (simp add: strip_def)

text \<open>
  Claim C10. \<open>bs_receive_prefix\<close> decides on the stripped text of the reply. A reply whose
  stripped text is empty gets the same label as a reply whose stripped text is \<open>-\<close>: the
  original name of the file (a message without text counts as empty). Every other stripped
  text is the label itself. The label is stored in the file at the current index.
\<close>

theorem label_of_placeholder:
  "(strip t = '''' \<or> strip t = ''-'' \<longrightarrow> label_of (Some t) f = fd_file_name f)
   \<and> label_of (Some '''') f = label_of (Some ''-'') f
   \<and> label_of None f = fd_file_name f
   \<and> (strip t \<noteq> '''' \<and> strip t \<noteq> ''-'' \<longrightarrow> label_of (Some t) f = Some (strip t))
   \<and> (authenticated ud \<and> files ud = Some fs \<and> current_index ud = Some i \<and> i < length fs \<longrightarrow>
        (\<forall>rs st ud'. bs_receive_prefix d (Some t) ud = Inr (rs, st, ud') \<longrightarrow>
           files ud' = Some (fs[i := (fs ! i)\<lparr>fd_prefix := label_of (Some t) (fs ! i)\<rparr>])))"
proof -
  have s: "strip ''-'' = ''-''" by (simp add: strip_def is_space_def)
  have a: "strip t = '''' \<or> strip t = ''-'' \<longrightarrow> label_of (Some t) f = fd_file_name f"
    by (auto simp: label_of_def)
  have b: "label_of (Some '''') f = label_of (Some ''-'') f" by (simp add: label_of_def s)
  have c: "label_of None f = fd_file_name f" by (simp add: label_of_def)
  have d: "strip t \<noteq> '''' \<and> strip t \<noteq> ''-'' \<longrightarrow> label_of (Some t) f = Some (strip t)"
    by (auto simp: label_of_def strip_Nil)
  have e: "authenticated ud \<and> files ud = Some fs \<and> current_index ud = Some i \<and> i < length fs \<longrightarrow>
        (\<forall>rs st ud'. bs_receive_prefix d (Some t) ud = Inr (rs, st, ud') \<longrightarrow>
           files ud' = Some (fs[i := (fs ! i)\<lparr>fd_prefix := label_of (Some t) (fs ! i)\<rparr>]))"
    by (auto simp: bs_receive_prefix_def require_login_def Let_def split: sum.splits if_splits)
  show ?thesis using a b c d e by blast
qed

theorem label_of_placeholder_witness:
  "label_of (Some ''  '')
     \<lparr>fd_file_info = \<lparr>file_id = ''f1'', file_size = None\<rparr>, fd_file_type = KDocument,
      fd_file_name = Some ''a.pdf'', fd_additional = '''', fd_prefix = None\<rparr> = Some ''a.pdf''
   \<and> label_of (Some '' - '')
     \<lparr>fd_file_info = \<lparr>file_id = ''f1'', file_size = None\<rparr>, fd_file_type = KDocument,
      fd_file_name = Some ''a.pdf'', fd_additional = '''', fd_prefix = None\<rparr> = Some ''a.pdf''
   \<and> label_of (Some '' S01 '')
     \<lparr>fd_file_info = \<lparr>file_id = ''f1'', file_size = None\<rparr>, fd_file_type = KDocument,
      fd_file_name = Some ''a.pdf'', fd_additional = '''', fd_prefix = None\<rparr> = Some ''S01''
   \<and> bs_receive_prefix \<lparr>groups_file = Missing, password_file = Missing\<rparr> (Some '' S01 '')
       \<lparr>authenticated = True,
        files = Some [\<lparr>fd_file_info = \<lparr>file_id = ''f1'', file_size = None\<rparr>,
                       fd_file_type = KDocument, fd_file_name = Some ''a.pdf'',
                       fd_additional = '''', fd_prefix = None\<rparr>],
        current_index = Some 0, target = None\<rparr>
     = Inr ([target_keyboard []], Some BS_TARGET,
         \<lparr>authenticated = True,
          files = Some [\<lparr>fd_file_info = \<lparr>file_id = ''f1'', file_size = None\<rparr>,
                         fd_file_type = KDocument, fd_file_name = Some ''a.pdf'',
                         fd_additional = '''', fd_prefix = Some ''S01''\<rparr>],
          current_index = Some 1, target = None\<rparr>)"
proof -
  let ?f = "\<lparr>fd_file_info = \<lparr>file_id = ''f1'', file_size = None\<rparr>, fd_file_type = KDocument,
      fd_file_name = Some ''a.pdf'', fd_additional = '''', fd_prefix = None\<rparr>"
  let ?d = "\<lparr>groups_file = Missing, password_file = Missing\<rparr>"
  let ?ud = "\<lparr>authenticated = True, files = Some [?f], current_index = Some 0, target = None\<rparr>"
  have s1: "strip ''  '' = ''''" by (simp add: strip_def is_space_def)
  have s2: "strip '' S01 '' = ''S01''" by (simp add: strip_def is_space_def)
  have s3: "strip '' - '' = ''-''" by (simp add: strip_def is_space_def)
  note i1 = label_of_placeholder [of "''  ''" ?f ?ud "[?f]" 0 ?d]
  note i2 = label_of_placeholder [of "'' S01 ''" ?f ?ud "[?f]" 0 ?d]
  note i3 = label_of_placeholder [of "'' - ''" ?f ?ud "[?f]" 0 ?d]
  have a: "label_of (Some ''  '') ?f = Some ''a.pdf''"
    using i1 [THEN conjunct1] s1 by simp
  have a': "label_of (Some '' - '') ?f = Some ''a.pdf''"
    using i3 [THEN conjunct1] s3 by simp
  have b: "label_of (Some '' S01 '') ?f = Some ''S01''"
    using i2 [THEN conjunct2, THEN conjunct2, THEN conjunct2, THEN conjunct1] s2 by simp
  have g: "load_groups ?d = Inr (JDict [])" by (simp add: load_groups_def try_except_def)
  have c: "bs_receive_prefix ?d (Some '' S01 '') ?ud
      = Inr ([target_keyboard []], Some BS_TARGET,
          ?ud\<lparr>files := Some [?f\<lparr>fd_prefix := Some ''S01''\<rparr>], current_index := Some 1\<rparr>)"
    by (simp add: bs_receive_prefix_def require_login_def Let_def g b)
  show ?thesis using a a' b c by simp
qed

section \<open>Best match\<close>

text \<open>
  Claim C1. The claim gives an exact title match priority over a title that only contains
  the query, wherever the two stand in the list. \<open>select_best_match\<close> returns the first
  result whose title contains the query, so a containing title placed before the exact one
  is selected: for the query \<open>naruto\<close> and the results titled \<open>Naruto Shippuden\<close> and
  \<open>Naruto\<close>, in this order, the first is returned.
\<close>

theorem select_best_match_substring_first:
  "select_best_match
     [JDict [(''title'', JStr ''Naruto Shippuden'')], JDict [(''title'', JStr ''Naruto'')]]
     ''naruto''
   = Inr (Some (JDict [(''title'', JStr ''Naruto Shippuden'')]))"
proof -
  have l1: "lower ''Naruto Shippuden'' = ''naruto shippuden''"
    by code_simp
  have l2: "lower ''naruto'' = ''naruto''"
    by code_simp
  have c: "contains ''naruto shippuden'' ''naruto''"
    by (simp add: startswith_def)
  show ?thesis
    by (simp add: select_best_match_def l1 l2 c del: contains.simps)
qed

section \<open>The season step\<close>

lemma digit_val_range: "is_digit c \<Longrightarrow> 0 \<le> digit_val c \<and> digit_val c \<le> 9"
  by (auto simp: is_digit_def digit_val_def)

lemma digits_value_bound:
  "list_all is_digit ds \<Longrightarrow> 0 \<le> a \<Longrightarrow>
   0 \<le> foldl (\<lambda>a c. 10 * a + digit_val c) a ds
   \<and> foldl (\<lambda>a c. 10 * a + digit_val c) a ds < (a + 1) * 10 ^ length ds"
proof (induction ds arbitrary: a)
  case Nil
  then show ?case by simp
next
  case (Cons c ds)
  have d: "0 \<le> digit_val c" "digit_val c \<le> 9" using Cons.prems(1) digit_val_range by simp_all
  have a': "0 \<le> 10 * a + digit_val c" using Cons.prems(2) d by simp
  have ds: "list_all is_digit ds" using Cons.prems(1) by simp
  note ih = Cons.IH [OF ds a']
  have "(10 * a + digit_val c + 1) * 10 ^ length ds \<le> (10 * a + 10) * 10 ^ length ds"
    using d by (intro mult_right_mono) simp_all
  also have "\<dots> = (a + 1) * 10 ^ length (c # ds)" by (simp add: algebra_simps)
  finally have le: "(10 * a + digit_val c + 1) * 10 ^ length ds \<le> (a + 1) * 10 ^ length (c # ds)" .
  have lt: "foldl (\<lambda>a c. 10 * a + digit_val c) a (c # ds) < (10 * a + digit_val c + 1) * 10 ^ length ds"
    using ih by simp
  have nn: "0 \<le> foldl (\<lambda>a c. 10 * a + digit_val c) a (c # ds)" using ih by simp
  show ?case using nn less_le_trans [OF lt le] by blast
qed

lemma int_literal_bound:
  assumes "int_literal body = Some v"
  shows "0 \<le> v \<and> v < 10 ^ max_str_digits"
proof -
  let ?ds = "filter is_digit body"
  have v: "v = foldl (\<lambda>a c. 10 * a + digit_val c) 0 ?ds" and len: "length ?ds \<le> max_str_digits"
    using assms by (simp_all add: int_literal_def split: if_splits)
  have "list_all is_digit ?ds" by (simp add: list_all_iff)
  from digits_value_bound [OF this, of 0]
  have b: "0 \<le> v" "v < 10 ^ length ?ds" unfolding v by simp_all
  have "(10::int) ^ length ?ds \<le> 10 ^ max_str_digits" using len by (rule power_increasing) simp
  then show ?thesis using b by linarith
qed

lemma int_of_str_bound:
  assumes "int_of_str s = Inr n"
  shows "\<bar>n\<bar> < 10 ^ max_str_digits"
proof -
  from assms obtain body v where "int_literal body = Some v" and "n = v \<or> n = - v"
    by (auto simp: int_of_str_def Let_def split: list.splits if_splits option.splits)
  then show ?thesis using int_literal_bound [of body v] by auto
qed

lemma int_of_str_py_str: "int_of_str s = Inr n \<Longrightarrow> py_str n = Inr (str_int n)"
  by (rule py_str_fits) (rule int_of_str_bound)

text \<open>
  Claim C6. In a session that holds the query and the selected result, the season step
  ends without an error and leaves the stored result as it was when the reply is
  \<open>skip\<close> (in any letter case) or is not an integer for \<open>int\<close>, and when the reply is
  an integer but the refined lookup returns nothing (or the integer is zero, for which no
  lookup is made). Whenever the step ends with another stored result, the reply was a
  non-zero integer and the refined lookup returned that result.
\<close>

theorem ask_season_keeps_info:
  assumes "ld_query ud = Some q" and "ld_info ud = Some i"
  shows "(lower text = ''skip'' \<or> (\<exists>e. int_of_str (lower text) = Inl e) \<longrightarrow>
            ask_season_handler search build text ud = Inr (i, ud\<lparr>ld_season := None\<rparr>))
       \<and> (\<forall>n. lower text \<noteq> ''skip'' \<and> int_of_str (lower text) = Inr n
              \<and> (n = 0 \<or> get_media_info search build (q @ '' season '' @ str_int n) = Inr None)
            \<longrightarrow> ask_season_handler search build text ud = Inr (i, ud\<lparr>ld_season := Some n\<rparr>))
       \<and> (\<forall>i' ud'. ask_season_handler search build text ud = Inr (i', ud')
              \<and> ld_info ud' \<noteq> Some i
            \<longrightarrow> (\<exists>n. lower text \<noteq> ''skip'' \<and> int_of_str (lower text) = Inr n \<and> n \<noteq> 0
                  \<and> get_media_info search build (q @ '' season '' @ str_int n) = Inr (Some i')
                  \<and> ld_info ud' = Some i'))"
proof -
  have a: "lower text = ''skip'' \<or> (\<exists>e. int_of_str (lower text) = Inl e) \<longrightarrow>
            ask_season_handler search build text ud = Inr (i, ud\<lparr>ld_season := None\<rparr>)"
    using assms by (auto simp: ask_season_handler_def Let_def)
  have b: "\<forall>n. lower text \<noteq> ''skip'' \<and> int_of_str (lower text) = Inr n
              \<and> (n = 0 \<or> get_media_info search build (q @ '' season '' @ str_int n) = Inr None)
            \<longrightarrow> ask_season_handler search build text ud = Inr (i, ud\<lparr>ld_season := Some n\<rparr>)"
    using assms by (auto simp: ask_season_handler_def Let_def and_then_def int_of_str_py_str)
  have c: "\<forall>i' ud'. ask_season_handler search build text ud = Inr (i', ud')
              \<and> ld_info ud' \<noteq> Some i
            \<longrightarrow> (\<exists>n. lower text \<noteq> ''skip'' \<and> int_of_str (lower text) = Inr n \<and> n \<noteq> 0
                  \<and> get_media_info search build (q @ '' season '' @ str_int n) = Inr (Some i')
                  \<and> ld_info ud' = Some i')"
    using assms
    by (auto simp: ask_season_handler_def Let_def and_then_def int_of_str_py_str
          split: if_splits sum.splits option.splits)
  show ?thesis using a b c by blast
qed

theorem ask_season_keeps_info_witness:
  "ask_season_handler (\<lambda>q m. Inr []) (\<lambda>m j. Inr j) ''Skip''
     \<lparr>ld_query = Some ''naruto'', ld_info = Some (JStr ''Naruto''), ld_images = None,
      ld_translate = None, ld_season = None\<rparr>
   = Inr (JStr ''Naruto'',
       \<lparr>ld_query = Some ''naruto'', ld_info = Some (JStr ''Naruto''), ld_images = None,
        ld_translate = None, ld_season = None\<rparr>)
   \<and> ask_season_handler (\<lambda>q m. Inr []) (\<lambda>m j. Inr j) ''2''
     \<lparr>ld_query = Some ''naruto'', ld_info = Some (JStr ''Naruto''), ld_images = None,
      ld_translate = None, ld_season = None\<rparr>
   = Inr (JStr ''Naruto'',
       \<lparr>ld_query = Some ''naruto'', ld_info = Some (JStr ''Naruto''), ld_images = None,
        ld_translate = None, ld_season = Some 2\<rparr>)
   \<and> ask_season_handler (\<lambda>q m. Inr [JDict [(''title'', JStr ''Naruto 2'')]]) (\<lambda>m j. Inr j)
       [CHR 0x1F, CHR ''2'']
     \<lparr>ld_query = Some ''naruto'', ld_info = Some (JStr ''Naruto''), ld_images = None,
      ld_translate = None, ld_season = None\<rparr>
   = Inr (JStr ''Naruto'',
       \<lparr>ld_query = Some ''naruto'', ld_info = Some (JStr ''Naruto''), ld_images = None,
        ld_translate = None, ld_season = None\<rparr>)"
proof -
  let ?ud = "\<lparr>ld_query = Some ''naruto'', ld_info = Some (JStr ''Naruto''), ld_images = None,
      ld_translate = None, ld_season = None\<rparr>"
  let ?search = "\<lambda>(q::string) (m::string). (Inr [] :: error + json list)"
  let ?build = "\<lambda>(m::string) (j::json). (Inr j :: error + json)"
  have q: "ld_query ?ud = Some ''naruto''" by simp
  have i: "ld_info ?ud = Some (JStr ''Naruto'')" by simp
  have l1: "lower ''Skip'' = ''skip''" by code_simp
  have l2: "lower ''2'' = ''2''" by code_simp
  have n: "int_of_str ''2'' = Inr 2"
    by (simp add: int_of_str_def int_strip_def is_int_space_def int_literal_def is_digit_def
          digit_val_def max_str_digits_def)
  have g: "get_media_info ?search ?build (''naruto'' @ '' season '' @ str_int 2) = Inr None"
    by (simp add: get_media_info_def best_of_def)
  have ne: "''2'' \<noteq> ''skip''" by simp
  note inst1 = ask_season_keeps_info [OF q i, of "''Skip''" ?search ?build]
  note inst2 = ask_season_keeps_info [OF q i, of "''2''" ?search ?build]
  have a0: "lower ''Skip'' = ''skip'' \<longrightarrow>
      ask_season_handler ?search ?build ''Skip'' ?ud = Inr (JStr ''Naruto'', ?ud\<lparr>ld_season := None\<rparr>)"
    using inst1 by blast
  have b0: "lower ''2'' \<noteq> ''skip'' \<and> int_of_str (lower ''2'') = Inr 2
        \<and> get_media_info ?search ?build (''naruto'' @ '' season '' @ str_int 2) = Inr None
      \<longrightarrow> ask_season_handler ?search ?build ''2'' ?ud
          = Inr (JStr ''Naruto'', ?ud\<lparr>ld_season := Some 2\<rparr>)"
    using inst2 by blast
  have a: "ask_season_handler ?search ?build ''Skip'' ?ud = Inr (JStr ''Naruto'', ?ud\<lparr>ld_season := None\<rparr>)"
    using a0 l1 by blast
  have b: "ask_season_handler ?search ?build ''2'' ?ud = Inr (JStr ''Naruto'', ?ud\<lparr>ld_season := Some 2\<rparr>)"
    using b0 l2 n g ne by simp
  let ?found = "\<lambda>(q::string) (m::string).
      (Inr [JDict [(''title'', JStr ''Naruto 2'')]] :: error + json list)"
  have l3: "lower [CHR 0x1F, CHR ''2''] = [CHR 0x1F, CHR ''2'']" by code_simp
  have n3: "int_of_str [CHR 0x1F, CHR ''2''] = Inl ValueError"
    by (simp add: int_of_str_def int_strip_def is_int_space_def int_literal_def is_digit_def)
  note inst3 = ask_season_keeps_info [OF q i, of "[CHR 0x1F, CHR ''2'']" ?found ?build]
  have c: "ask_season_handler ?found ?build [CHR 0x1F, CHR ''2''] ?ud
      = Inr (JStr ''Naruto'', ?ud\<lparr>ld_season := None\<rparr>)"
    using inst3 [THEN conjunct1] l3 n3 by simp
  show ?thesis using a b c by simp
qed

section \<open>The bounded message log\<close>

lemma keep_last_append:
  "drop (length (drop (length xs - n) xs @ ys) - n) (drop (length xs - n) xs @ ys)
   = drop (length (xs @ ys) - n) (xs @ ys)"
proof (cases "length xs \<le> n")
  case True
  then show ?thesis by simp
next
  case False
  then have "length (drop (length xs - n) xs @ ys) - n = length ys" by simp
  moreover have "length (xs @ ys) - n = (length xs - n) + length ys" using False by simp
  ultimately show ?thesis by (simp add: drop_append add.commute)
qed

lemma keep_last_short: "length xs \<le> n \<Longrightarrow> drop (length xs - n) xs = xs"
  by simp

lemma log_messages_other:
  "appended c [u] = [] \<Longrightarrow> log_messages u logs c = logs c"
  by (auto simp: log_messages_def Let_def split: option.splits if_splits)

lemma log_messages_same:
  assumes "appended c [u] \<noteq> []"
  shows "log_messages u logs c =
    Some (drop (length ((case logs c of None \<Rightarrow> [] | Some l \<Rightarrow> l) @ appended c [u]) - 100)
            ((case logs c of None \<Rightarrow> [] | Some l \<Rightarrow> l) @ appended c [u]))"
proof -
  from assms obtain msg where m: "effective_message u = Some msg"
    and t: "chat_type u \<in> set [''group'', ''supergroup'', ''channel'']"
    and k: "str_int (chat_id u) = c"
    by (auto split: if_splits option.splits)
  show ?thesis using m t k by (simp add: log_messages_def Let_def)
qed

lemma log_messages_contents:
  assumes "length (case logs c of None \<Rightarrow> [] | Some l \<Rightarrow> l) \<le> 100"
  shows "(case log_messages u logs c of None \<Rightarrow> [] | Some l \<Rightarrow> l) =
     drop (length ((case logs c of None \<Rightarrow> [] | Some l \<Rightarrow> l) @ appended c [u]) - 100)
          ((case logs c of None \<Rightarrow> [] | Some l \<Rightarrow> l) @ appended c [u])"
proof (cases "appended c [u] = []")
  case True
  then show ?thesis using assms by (simp add: log_messages_other)
next
  case False
  then show ?thesis by (simp add: log_messages_same)
qed

lemma log_all_contents:
  "length (case logs c of None \<Rightarrow> [] | Some l \<Rightarrow> l) \<le> 100 \<Longrightarrow>
   (case log_all us logs c of None \<Rightarrow> [] | Some l \<Rightarrow> l) =
     drop (length ((case logs c of None \<Rightarrow> [] | Some l \<Rightarrow> l) @ appended c us) - 100)
          ((case logs c of None \<Rightarrow> [] | Some l \<Rightarrow> l) @ appended c us)"
proof (induction us arbitrary: logs)
  case Nil
  then show ?case by simp
next
  case (Cons u us)
  let ?old = "case logs c of None \<Rightarrow> [] | Some l \<Rightarrow> l"
  let ?mid = "case log_messages u logs c of None \<Rightarrow> [] | Some l \<Rightarrow> l"
  have mid: "?mid = drop (length (?old @ appended c [u]) - 100) (?old @ appended c [u])"
    using Cons.prems by (rule log_messages_contents)
  then have len: "length ?mid \<le> 100" by simp
  have app: "appended c (u # us) = appended c [u] @ appended c us" by simp
  have "(case log_all (u # us) logs c of None \<Rightarrow> [] | Some l \<Rightarrow> l) =
      drop (length (?mid @ appended c us) - 100) (?mid @ appended c us)"
    using Cons.IH [of "log_messages u logs"] len by simp
  also have "\<dots> = drop (length ((?old @ appended c [u]) @ appended c us) - 100)
      ((?old @ appended c [u]) @ appended c us)"
    unfolding mid by (rule keep_last_append)
  finally show ?case unfolding app by (simp only: append_assoc)
qed

text \<open>
  Claim C9. Starting from the empty log, after any sequence of updates the log of a chat
  is the last 100 (or all, when fewer) of the entries appended for this chat, in order of
  arrival: it has at most 100 entries and is a suffix of the append sequence. Logging a
  message in a chat whose log holds 100 entries drops the oldest one and puts the new entry
  at the end.
\<close>

theorem chat_log_bounded:
  "length (case log_all us Map.empty c of None \<Rightarrow> [] | Some l \<Rightarrow> l) \<le> 100
   \<and> (case log_all us Map.empty c of None \<Rightarrow> [] | Some l \<Rightarrow> l)
       = drop (length (appended c us) - 100) (appended c us)
   \<and> (\<exists>evicted. appended c us
         = evicted @ (case log_all us Map.empty c of None \<Rightarrow> [] | Some l \<Rightarrow> l))
   \<and> (logs (str_int (chat_id u)) = Some l \<and> length l = 100
        \<and> chat_type u \<in> set [''group'', ''supergroup'', ''channel'']
        \<and> effective_message u = Some msg
      \<longrightarrow> log_messages u logs (str_int (chat_id u))
          = Some (tl l @ [\<lparr>message_id = in_message_id msg, snippet = snippet_of (in_text msg)\<rparr>]))"
proof -
  let ?log = "case log_all us Map.empty c of None \<Rightarrow> [] | Some l \<Rightarrow> l"
  have eq: "?log = drop (length (appended c us) - 100) (appended c us)"
    using log_all_contents [of Map.empty c us] by simp
  then have len: "length ?log \<le> 100" by simp
  have suf: "\<exists>evicted. appended c us = evicted @ ?log"
  proof
    show "appended c us = take (length (appended c us) - 100) (appended c us) @ ?log"
      unfolding eq by simp
  qed
  have ev: "logs (str_int (chat_id u)) = Some l \<and> length l = 100
        \<and> chat_type u \<in> set [''group'', ''supergroup'', ''channel'']
        \<and> effective_message u = Some msg
      \<longrightarrow> log_messages u logs (str_int (chat_id u))
          = Some (tl l @ [\<lparr>message_id = in_message_id msg, snippet = snippet_of (in_text msg)\<rparr>])"
    by (auto simp: log_messages_def Let_def drop_Suc)
  show ?thesis using eq len suf ev by blast
qed

theorem chat_log_bounded_witness:
  "(case log_all [\<lparr>chat_type = ''group'', chat_id = 7,
                    effective_message = Some \<lparr>in_message_id = 1, in_text = Some ''hi''\<rparr>\<rparr>]
           Map.empty ''7'' of None \<Rightarrow> [] | Some l \<Rightarrow> l)
     = [\<lparr>message_id = 1, snippet = ''hi''\<rparr>]
   \<and> log_messages
        \<lparr>chat_type = ''group'', chat_id = 7,
         effective_message = Some \<lparr>in_message_id = 1, in_text = Some ''hi''\<rparr>\<rparr>
        [''7'' \<mapsto> replicate 100 \<lparr>message_id = 0, snippet = ''old''\<rparr>] ''7''
     = Some (tl (replicate 100 \<lparr>message_id = 0, snippet = ''old''\<rparr>)
             @ [\<lparr>message_id = 1, snippet = ''hi''\<rparr>])"
proof -
  let ?m = "\<lparr>in_message_id = 1, in_text = Some ''hi''\<rparr>"
  let ?u = "\<lparr>chat_type = ''group'', chat_id = 7, effective_message = Some ?m\<rparr>"
  let ?l = "replicate 100 \<lparr>message_id = 0, snippet = ''old''\<rparr>"
  let ?logs = "[''7'' \<mapsto> ?l]"
  have k: "str_int 7 = ''7''" by (simp add: str_int_def str_nat.simps digit_char_def)
  have sn: "snippet_of (Some ''hi'') = ''hi''" by (simp add: snippet_of_def)
  have ap: "appended ''7'' [?u] = [\<lparr>message_id = 1, snippet = ''hi''\<rparr>]" by (simp add: k sn)
  note inst = chat_log_bounded [of "[?u]" "''7''" ?logs ?u ?l ?m]
  have a0: "(case log_all [?u] Map.empty ''7'' of None \<Rightarrow> [] | Some l \<Rightarrow> l)
       = drop (length (appended ''7'' [?u]) - 100) (appended ''7'' [?u])"
    using inst by blast
  have b0: "?logs (str_int (chat_id ?u)) = Some ?l \<and> length ?l = 100
        \<and> chat_type ?u \<in> set [''group'', ''supergroup'', ''channel'']
        \<and> effective_message ?u = Some ?m
      \<longrightarrow> log_messages ?u ?logs (str_int (chat_id ?u))
          = Some (tl ?l @ [\<lparr>message_id = in_message_id ?m, snippet = snippet_of (in_text ?m)\<rparr>])"
    using inst by blast
  have a: "(case log_all [?u] Map.empty ''7'' of None \<Rightarrow> [] | Some l \<Rightarrow> l)
       = [\<lparr>message_id = 1, snippet = ''hi''\<rparr>]"
    unfolding a0 ap by simp
  have h: "?logs (str_int (chat_id ?u)) = Some ?l \<and> length ?l = 100
        \<and> chat_type ?u \<in> set [''group'', ''supergroup'', ''channel'']
        \<and> effective_message ?u = Some ?m"
    by (simp add: k)
  have b: "log_messages ?u ?logs ''7'' = Some (tl ?l @ [\<lparr>message_id = 1, snippet = ''hi''\<rparr>])"
    using b0 h by (simp add: k sn)
  show ?thesis using a b by blast
qed

section \<open>The batch-send session\<close>

lemma prefix_prompt_name:
  "fd_file_name f = fd_file_name f' \<Longrightarrow> prefix_prompt n f = prefix_prompt n f'"
  by (simp add: prefix_prompt_def)

lemma bs_receive_prefix_next:
  assumes "authenticated ud" and "files ud = Some fs" and "current_index ud = Some k"
    and "k + 1 < length fs"
  shows "bs_receive_prefix d t ud =
    Inr ([prefix_prompt (k + 2) (fs ! (k + 1))], Some BATCH_GET_PREFIX,
         ud\<lparr>files := Some (fs[k := (fs ! k)\<lparr>fd_prefix := label_of t (fs ! k)\<rparr>]),
            current_index := Some (k + 1)\<rparr>)"
  using assms by (simp add: bs_receive_prefix_def require_login_def Let_def)

lemma bs_receive_prefix_last:
  assumes "authenticated ud" and "files ud = Some fs" and "current_index ud = Some k"
    and "k + 1 = length fs" and "load_groups d = Inr g" and "dict_items g = Inr groups"
  shows "bs_receive_prefix d t ud =
    Inr ([target_keyboard groups], Some BS_TARGET,
         ud\<lparr>files := Some (fs[k := (fs ! k)\<lparr>fd_prefix := label_of t (fs ! k)\<rparr>]),
            current_index := Some (k + 1)\<rparr>)"
proof -
  have k: "k < length fs" using assms(4) by simp
  have n: "\<not> k + 1 < length fs" using assms(4) by simp
  show ?thesis
    using assms(1,2,3,5,6) k n by (simp add: bs_receive_prefix_def require_login_def Let_def)
qed

lemma relabel_step:
  assumes "k < length fs"
  shows "take (Suc k) (fs[k := x]) = take k fs @ [x]
    \<and> drop (Suc k) (fs[k := x]) = drop (Suc k) fs
    \<and> drop k fs = fs ! k # drop (Suc k) fs"
  using assms by (simp add: take_Suc_conv_app_nth Cons_nth_drop_Suc)

lemma feed_prefixes_run:
  assumes "authenticated ud" and "files ud = Some fs" and "current_index ud = Some k"
    and "ts \<noteq> []" and "k + length ts \<le> length fs"
    and "load_groups d = Inr g" and "dict_items g = Inr groups"
  shows "feed_prefixes d ts ud =
    Inr (map (\<lambda>j. prefix_prompt (j + 1) (fs ! j)) [k + 1..<k + length ts]
           @ [if k + length ts < length fs
              then prefix_prompt (k + length ts + 1) (fs ! (k + length ts))
              else target_keyboard groups],
         Some (if k + length ts < length fs then BATCH_GET_PREFIX else BS_TARGET),
         ud\<lparr>files := Some (take k fs
                    @ map (\<lambda>(t, f). f\<lparr>fd_prefix := label_of t f\<rparr>) (zip ts (drop k fs))
                    @ drop (k + length ts) fs),
            current_index := Some (k + length ts)\<rparr>)"
  using assms
proof (induction ts arbitrary: ud fs k)
  case Nil
  then show ?case by simp
next
  case (Cons t ts)
  let ?x = "(fs ! k)\<lparr>fd_prefix := label_of t (fs ! k)\<rparr>"
  let ?fs' = "fs[k := ?x]"
  let ?ud' = "ud\<lparr>files := Some ?fs', current_index := Some (k + 1)\<rparr>"
  have klt: "k < length fs" using Cons.prems(5) by simp
  note rs = relabel_step [OF klt, of ?x]
  have rs3: "drop k fs = fs ! k # drop (Suc k) fs" using rs by simp
  show ?case
  proof (cases "ts = []")
    case True
    show ?thesis
    proof (cases "k + 1 < length fs")
      case True
      have step: "bs_receive_prefix d t ud =
          Inr ([prefix_prompt (k + 2) (fs ! (k + 1))], Some BATCH_GET_PREFIX, ?ud')"
        using Cons.prems(1,2,3) True by (rule bs_receive_prefix_next)
      have fl: "?fs' = take k fs @ [?x] @ drop (Suc k) fs"
        using klt by (simp add: upd_conv_take_nth_drop)
      show ?thesis using \<open>ts = []\<close> True step fl rs3 by simp
    next
      case False
      then have e: "k + 1 = length fs" using klt by simp
      have step: "bs_receive_prefix d t ud = Inr ([target_keyboard groups], Some BS_TARGET, ?ud')"
        using Cons.prems(1,2,3) e Cons.prems(6,7) by (rule bs_receive_prefix_last)
      have fl: "?fs' = take k fs @ [?x] @ drop (Suc k) fs"
        using klt by (simp add: upd_conv_take_nth_drop)
      show ?thesis using \<open>ts = []\<close> False e step fl rs3 by simp
    qed
  next
    case False
    then have more: "k + 1 < length fs" using Cons.prems(5) by (cases ts) simp_all
    have step: "bs_receive_prefix d t ud =
        Inr ([prefix_prompt (k + 2) (fs ! (k + 1))], Some BATCH_GET_PREFIX, ?ud')"
      using Cons.prems(1,2,3) more by (rule bs_receive_prefix_next)
    have a': "authenticated ?ud'" using Cons.prems(1) by simp
    have f': "files ?ud' = Some ?fs'" by simp
    have i': "current_index ?ud' = Some (k + 1)" by simp
    have l': "(k + 1) + length ts \<le> length ?fs'" using Cons.prems(5) by simp
    note ih = Cons.IH [OF a' f' i' False l' Cons.prems(6,7)]
    have nth': "\<And>j. k < j \<Longrightarrow> ?fs' ! j = fs ! j" by simp
    have prompts: "map (\<lambda>j. prefix_prompt (j + 1) (?fs' ! j)) [k + 1 + 1..<k + 1 + length ts]
        = map (\<lambda>j. prefix_prompt (j + 1) (fs ! j)) [k + 1 + 1..<k + 1 + length ts]"
    proof (rule map_cong [OF refl])
      fix j assume "j \<in> set [k + 1 + 1..<k + 1 + length ts]"
      then have "k < j" by auto
      then show "prefix_prompt (j + 1) (?fs' ! j) = prefix_prompt (j + 1) (fs ! j)"
        by (simp only: nth')
    qed
    have last': "?fs' ! (k + 1 + length ts) = fs ! (k + 1 + length ts)" by (rule nth') simp
    have upt: "[k + 1..<k + length (t # ts)] = (k + 1) # [k + 1 + 1..<k + 1 + length ts]"
      using False by (cases ts) (simp_all add: upt_rec)
    have files_eq: "take (k + 1) ?fs'
          @ map (\<lambda>(t, f). f\<lparr>fd_prefix := label_of t f\<rparr>) (zip ts (drop (k + 1) ?fs'))
          @ drop (k + 1 + length ts) ?fs'
        = take k fs
          @ map (\<lambda>(t, f). f\<lparr>fd_prefix := label_of t f\<rparr>) (zip (t # ts) (drop k fs))
          @ drop (k + length (t # ts)) fs"
      using rs by simp
    show ?thesis
      unfolding feed_prefixes.simps step
      using False ih
      by (simp only: prompts last' upt files_eq) (simp add: numeral_2_eq_2)
  qed
qed

lemma send_one_line:
  "fst (send_one api tgt i f w) = success_line i
   \<or> (\<exists>e. fst (send_one api tgt i f w) = error_line i e)"
  by (auto simp: send_one_def split: prod.splits sum.splits)

lemma send_one_failure:
  "api w (file_request tgt f) = (Inl e, w1) \<Longrightarrow> send_one api tgt i f w = (error_line i e, w1)"
  by (simp add: send_one_def)

lemma send_all_Cons:
  "send_all api tgt i (f # fs) w =
     (fst (send_one api tgt i f w) # fst (send_all api tgt (i + 1) fs (snd (send_one api tgt i f w))),
      snd (send_all api tgt (i + 1) fs (snd (send_one api tgt i f w))))"
  by (simp split: prod.splits)

lemma send_all_length: "length (fst (send_all api tgt i fs w)) = length fs"
proof (induction fs arbitrary: i w)
  case Nil
  show ?case by simp
next
  case (Cons f fs)
  show ?case unfolding send_all_Cons using Cons.IH by simp
qed

lemma send_all_nth:
  "j < length fs \<Longrightarrow>
   \<exists>w'. fst (send_all api tgt i fs w) ! j = fst (send_one api tgt (i + j) (fs ! j) w')"
proof (induction fs arbitrary: i j w)
  case Nil
  then show ?case by simp
next
  case (Cons f fs)
  show ?case
  proof (cases j)
    case 0
    have "fst (send_all api tgt i (f # fs) w) ! 0 = fst (send_one api tgt (i + 0) ((f # fs) ! 0) w)"
      unfolding send_all_Cons by simp
    then show ?thesis unfolding 0 by blast
  next
    case (Suc j')
    then have "j' < length fs" using Cons.prems by simp
    from Cons.IH [OF this, of "i + 1" "snd (send_one api tgt i f w)"]
    obtain w' where
      "fst (send_all api tgt (i + 1) fs (snd (send_one api tgt i f w))) ! j'
       = fst (send_one api tgt (i + 1 + j') (fs ! j') w')" by blast
    then have "fst (send_all api tgt i (f # fs) w) ! j
       = fst (send_one api tgt (i + j) ((f # fs) ! j) w')"
      unfolding Suc send_all_Cons by simp
    then show ?thesis by blast
  qed
qed

lemma send_all_lines:
  assumes "j < length fs"
  shows "fst (send_all api tgt i fs w) ! j = success_line (i + j)
     \<or> (\<exists>e. fst (send_all api tgt i fs w) ! j = error_line (i + j) e)"
proof -
  from send_all_nth [OF assms, of api tgt i w] obtain w' where
    e: "fst (send_all api tgt i fs w) ! j = fst (send_one api tgt (i + j) (fs ! j) w')" by blast
  show ?thesis unfolding e by (rule send_one_line)
qed

lemma send_all_failure:
  assumes "api w (file_request tgt f) = (Inl e, w1)"
  shows "fst (send_all api tgt i (f # rest) w) = error_line i e # fst (send_all api tgt (i + 1) rest w1)"
  using send_one_failure [of api w tgt f e w1 i] assms unfolding send_all_Cons by simp

lemma bs_select_target_result:
  assumes "authenticated ud" and "files ud = Some fs"
    and "item1 (split data ''bs_target:'') = Inr tgt"
  shows "bs_select_target api data ud w =
    (Inr ([Text (''Batch Send Completed:'' @ newline @ join newline (fst (send_all api tgt 1 fs w)))],
          Some END, ud\<lparr>target := Some tgt\<rparr>),
     snd (send_all api tgt 1 fs w))"
  using assms by (simp add: bs_select_target_def split: prod.splits)

lemma batch_done_first:
  assumes "authenticated ud" and "files ud = Some fs" and "fs \<noteq> []"
  shows "batch_done ud =
    Inr ([prefix_prompt 1 (fs ! 0)], Some BATCH_GET_PREFIX, ud\<lparr>current_index := Some 0\<rparr>)"
  using assms by (cases fs) (simp_all add: batch_done_def require_login_def)

lemma index_collect:
  "bs_collect_file msg ud = Inr (rs, st, ud') \<Longrightarrow> current_index ud' = current_index ud"
  by (auto simp: bs_collect_file_def require_login_def denied_def Let_def
        split: option.splits if_splits)

lemma index_select:
  "fst (bs_select_target api data ud w) = Inr (rs, st, ud') \<Longrightarrow>
   current_index ud' = current_index ud"
  by (auto simp: bs_select_target_def denied_def split: sum.splits prod.splits if_splits)

lemma bs_collect_file_appends:
  assumes "authenticated ud" and "collected msg = Some f"
  shows "\<exists>rs. bs_collect_file msg ud =
    Inr (rs, Some BATCH_COLLECT,
         ud\<lparr>files := Some ((case files ud of None \<Rightarrow> [] | Some l \<Rightarrow> l) @ [f])\<rparr>)"
  using assms by (simp add: bs_collect_file_def require_login_def Let_def)

text \<open>
  Claim C2. In an authenticated session with the collected files \<open>fs\<close>, \<open>N = length fs \<ge> 1\<close>,
  and a group registry that loads as a mapping: \<open>batch_done\<close> sets the index to 0 and
  prompts for file 1. Feeding \<open>n \<le> N\<close> replies then ends with the index at \<open>n\<close>, after the
  prompts for the files 2 to \<open>n\<close> in order; when \<open>n < N\<close> the last reply is the prompt for
  file \<open>n + 1\<close> and the state is still \<open>BATCH_GET_PREFIX\<close>, and when \<open>n = N\<close> it is the
  destination keyboard and the state is \<open>BS_TARGET\<close>. So exactly \<open>N\<close> labels are asked for,
  one file per reply in collection order, before the destination is offered, and the files
  carry the labels of the replies in this order. Neither \<open>bs_collect_file\<close> nor
  \<open>bs_select_target\<close> changes the index, and \<open>bs_collect_file\<close> appends each supported
  file at the end of the list, so the order of the list is the order of collection. The
  dispatch returns one line per file: exactly
  \<open>N\<close> lines, line \<open>j\<close> a success line or an error line with number \<open>j\<close>; a failed
  delivery of a file gives its error line, and the loop goes on with the remaining files.
\<close>

theorem batch_session:
  assumes "authenticated ud" and "files ud = Some fs" and "fs \<noteq> []"
    and "load_groups d = Inr g" and "dict_items g = Inr groups"
  shows "batch_done ud =
      Inr ([prefix_prompt 1 (fs ! 0)], Some BATCH_GET_PREFIX, ud\<lparr>current_index := Some 0\<rparr>)
    \<and> (ts \<noteq> [] \<and> length ts \<le> length fs \<longrightarrow>
         feed_prefixes d ts (ud\<lparr>current_index := Some 0\<rparr>) =
           Inr (map (\<lambda>j. prefix_prompt (j + 1) (fs ! j)) [1..<length ts]
                  @ [if length ts < length fs
                     then prefix_prompt (length ts + 1) (fs ! length ts)
                     else target_keyboard groups],
                Some (if length ts < length fs then BATCH_GET_PREFIX else BS_TARGET),
                ud\<lparr>current_index := Some 0,
                   files := Some (map (\<lambda>(t, f). f\<lparr>fd_prefix := label_of t f\<rparr>) (zip ts fs)
                                  @ drop (length ts) fs),
                   current_index := Some (length ts)\<rparr>))
    \<and> (bs_collect_file msg ud1 = Inr (rs, st, ud2) \<longrightarrow> current_index ud2 = current_index ud1)
    \<and> (fst (bs_select_target api data ud1 w) = Inr (rs, st, ud2) \<longrightarrow>
         current_index ud2 = current_index ud1)
    \<and> (item1 (split data ''bs_target:'') = Inr tgt \<longrightarrow>
         bs_select_target api data ud w =
           (Inr ([Text (''Batch Send Completed:'' @ newline
                        @ join newline (fst (send_all api tgt 1 fs w)))],
                 Some END, ud\<lparr>target := Some tgt\<rparr>),
            snd (send_all api tgt 1 fs w)))
    \<and> length (fst (send_all api tgt 1 fs w)) = length fs
    \<and> (\<forall>j<length fs.
          fst (send_all api tgt 1 fs w) ! j = success_line (j + 1)
          \<or> (\<exists>e. fst (send_all api tgt 1 fs w) ! j = error_line (j + 1) e))
    \<and> (\<forall>f rest e w0 w1 i. api w0 (file_request tgt f) = (Inl e, w1) \<longrightarrow>
          fst (send_all api tgt i (f # rest) w0)
          = error_line i e # fst (send_all api tgt (i + 1) rest w1))
    \<and> (authenticated ud1 \<and> collected msg = Some f1 \<longrightarrow>
         (\<exists>rs1. bs_collect_file msg ud1 =
            Inr (rs1, Some BATCH_COLLECT,
                 ud1\<lparr>files := Some ((case files ud1 of None \<Rightarrow> [] | Some l \<Rightarrow> l) @ [f1])\<rparr>)))"
proof -
  let ?uda = "ud\<lparr>current_index := Some 0\<rparr>"
  have c1: "batch_done ud =
      Inr ([prefix_prompt 1 (fs ! 0)], Some BATCH_GET_PREFIX, ?uda)"
    using assms(1,2,3) by (rule batch_done_first)
  have c2: "ts \<noteq> [] \<and> length ts \<le> length fs \<longrightarrow>
         feed_prefixes d ts ?uda =
           Inr (map (\<lambda>j. prefix_prompt (j + 1) (fs ! j)) [1..<length ts]
                  @ [if length ts < length fs
                     then prefix_prompt (length ts + 1) (fs ! length ts)
                     else target_keyboard groups],
                Some (if length ts < length fs then BATCH_GET_PREFIX else BS_TARGET),
                ?uda\<lparr>files := Some (map (\<lambda>(t, f). f\<lparr>fd_prefix := label_of t f\<rparr>) (zip ts fs)
                                  @ drop (length ts) fs),
                   current_index := Some (length ts)\<rparr>)"
  proof
    assume h: "ts \<noteq> [] \<and> length ts \<le> length fs"
    have a: "authenticated ?uda" using assms(1) by simp
    have f: "files ?uda = Some fs" using assms(2) by simp
    have i: "current_index ?uda = Some 0" by simp
    have n: "ts \<noteq> []" using h by simp
    have l: "0 + length ts \<le> length fs" using h by simp
    show "feed_prefixes d ts ?uda =
           Inr (map (\<lambda>j. prefix_prompt (j + 1) (fs ! j)) [1..<length ts]
                  @ [if length ts < length fs
                     then prefix_prompt (length ts + 1) (fs ! length ts)
                     else target_keyboard groups],
                Some (if length ts < length fs then BATCH_GET_PREFIX else BS_TARGET),
                ?uda\<lparr>files := Some (map (\<lambda>(t, f). f\<lparr>fd_prefix := label_of t f\<rparr>) (zip ts fs)
                                  @ drop (length ts) fs),
                   current_index := Some (length ts)\<rparr>)"
      using feed_prefixes_run [OF a f i n l assms(4,5)] by simp
  qed
  have c3: "bs_collect_file msg ud1 = Inr (rs, st, ud2) \<longrightarrow> current_index ud2 = current_index ud1"
    by (rule impI) (rule index_collect)
  have c4: "fst (bs_select_target api data ud1 w) = Inr (rs, st, ud2) \<longrightarrow>
         current_index ud2 = current_index ud1"
    by (rule impI) (rule index_select)
  have c5: "item1 (split data ''bs_target:'') = Inr tgt \<longrightarrow>
         bs_select_target api data ud w =
           (Inr ([Text (''Batch Send Completed:'' @ newline
                        @ join newline (fst (send_all api tgt 1 fs w)))],
                 Some END, ud\<lparr>target := Some tgt\<rparr>),
            snd (send_all api tgt 1 fs w))"
    by (rule impI) (rule bs_select_target_result [OF assms(1,2)])
  have c6: "length (fst (send_all api tgt 1 fs w)) = length fs"
    by (rule send_all_length)
  have c7: "\<forall>j<length fs.
          fst (send_all api tgt 1 fs w) ! j = success_line (j + 1)
          \<or> (\<exists>e. fst (send_all api tgt 1 fs w) ! j = error_line (j + 1) e)"
  proof (intro allI impI)
    fix j assume "j < length fs"
    from send_all_lines [OF this, of api tgt 1 w]
    show "fst (send_all api tgt 1 fs w) ! j = success_line (j + 1)
          \<or> (\<exists>e. fst (send_all api tgt 1 fs w) ! j = error_line (j + 1) e)"
      by (simp add: add.commute)
  qed
  have c8: "\<forall>f rest e w0 w1 i. api w0 (file_request tgt f) = (Inl e, w1) \<longrightarrow>
          fst (send_all api tgt i (f # rest) w0)
          = error_line i e # fst (send_all api tgt (i + 1) rest w1)"
    by (intro allI impI) (rule send_all_failure)
  have c9: "authenticated ud1 \<and> collected msg = Some f1 \<longrightarrow>
         (\<exists>rs1. bs_collect_file msg ud1 =
            Inr (rs1, Some BATCH_COLLECT,
                 ud1\<lparr>files := Some ((case files ud1 of None \<Rightarrow> [] | Some l \<Rightarrow> l) @ [f1])\<rparr>))"
    using bs_collect_file_appends [of ud1 msg f1] by blast
  from c1 c2 c3 c4 c5 c6 c7 c8 c9 show ?thesis by (intro conjI)
qed

theorem batch_session_witness:
  "batch_done
     \<lparr>authenticated = True,
      files = Some [\<lparr>fd_file_info = \<lparr>file_id = ''p1'', file_size = None\<rparr>, fd_file_type = KPhoto,
                     fd_file_name = Some ''photo.jpg'', fd_additional = '''', fd_prefix = None\<rparr>,
                    \<lparr>fd_file_info = \<lparr>file_id = ''d2'', file_size = None\<rparr>, fd_file_type = KDocument,
                     fd_file_name = Some ''a.pdf'', fd_additional = '''', fd_prefix = None\<rparr>],
      current_index = None, target = None\<rparr>
   = Inr ([prefix_prompt 1
             \<lparr>fd_file_info = \<lparr>file_id = ''p1'', file_size = None\<rparr>, fd_file_type = KPhoto,
              fd_file_name = Some ''photo.jpg'', fd_additional = '''', fd_prefix = None\<rparr>],
          Some BATCH_GET_PREFIX,
          \<lparr>authenticated = True,
           files = Some [\<lparr>fd_file_info = \<lparr>file_id = ''p1'', file_size = None\<rparr>, fd_file_type = KPhoto,
                          fd_file_name = Some ''photo.jpg'', fd_additional = '''', fd_prefix = None\<rparr>,
                         \<lparr>fd_file_info = \<lparr>file_id = ''d2'', file_size = None\<rparr>,
                          fd_file_type = KDocument,
                          fd_file_name = Some ''a.pdf'', fd_additional = '''', fd_prefix = None\<rparr>],
           current_index = Some 0, target = None\<rparr>)
   \<and> feed_prefixes \<lparr>groups_file = Missing, password_file = Missing\<rparr> [Some ''-'', Some ''b'']
       \<lparr>authenticated = True,
        files = Some [\<lparr>fd_file_info = \<lparr>file_id = ''p1'', file_size = None\<rparr>, fd_file_type = KPhoto,
                       fd_file_name = Some ''photo.jpg'', fd_additional = '''', fd_prefix = None\<rparr>,
                      \<lparr>fd_file_info = \<lparr>file_id = ''d2'', file_size = None\<rparr>,
                       fd_file_type = KDocument,
                       fd_file_name = Some ''a.pdf'', fd_additional = '''', fd_prefix = None\<rparr>],
        current_index = Some 0, target = None\<rparr>
     = Inr ([prefix_prompt 2
               \<lparr>fd_file_info = \<lparr>file_id = ''d2'', file_size = None\<rparr>, fd_file_type = KDocument,
                fd_file_name = Some ''a.pdf'', fd_additional = '''', fd_prefix = None\<rparr>,
             target_keyboard []],
            Some BS_TARGET,
            \<lparr>authenticated = True,
             files = Some [\<lparr>fd_file_info = \<lparr>file_id = ''p1'', file_size = None\<rparr>,
                            fd_file_type = KPhoto, fd_file_name = Some ''photo.jpg'',
                            fd_additional = '''', fd_prefix = Some ''photo.jpg''\<rparr>,
                           \<lparr>fd_file_info = \<lparr>file_id = ''d2'', file_size = None\<rparr>,
                            fd_file_type = KDocument, fd_file_name = Some ''a.pdf'',
                            fd_additional = '''', fd_prefix = Some ''b''\<rparr>],
             current_index = Some 2, target = None\<rparr>)
   \<and> length (fst (send_all
         (\<lambda>w r. case r of SendPhoto c p t \<Rightarrow> (Inl ''boom'', w)
                 | _ \<Rightarrow> (Inr \<lparr>sent_chat_id = 5, sent_message_id = 9\<rparr>, w))
         ''-1001'' 1
         [\<lparr>fd_file_info = \<lparr>file_id = ''p1'', file_size = None\<rparr>, fd_file_type = KPhoto,
           fd_file_name = Some ''photo.jpg'', fd_additional = '''', fd_prefix = None\<rparr>,
          \<lparr>fd_file_info = \<lparr>file_id = ''d2'', file_size = None\<rparr>, fd_file_type = KDocument,
           fd_file_name = Some ''a.pdf'', fd_additional = '''', fd_prefix = None\<rparr>] ())) = 2
   \<and> fst (send_all
         (\<lambda>w r. case r of SendPhoto c p t \<Rightarrow> (Inl ''boom'', w)
                 | _ \<Rightarrow> (Inr \<lparr>sent_chat_id = 5, sent_message_id = 9\<rparr>, w))
         ''-1001'' 1
         [\<lparr>fd_file_info = \<lparr>file_id = ''p1'', file_size = None\<rparr>, fd_file_type = KPhoto,
           fd_file_name = Some ''photo.jpg'', fd_additional = '''', fd_prefix = None\<rparr>,
          \<lparr>fd_file_info = \<lparr>file_id = ''d2'', file_size = None\<rparr>, fd_file_type = KDocument,
           fd_file_name = Some ''a.pdf'', fd_additional = '''', fd_prefix = None\<rparr>] ())
     = error_line 1 ''boom''
       # fst (send_all
         (\<lambda>w r. case r of SendPhoto c p t \<Rightarrow> (Inl ''boom'', w)
                 | _ \<Rightarrow> (Inr \<lparr>sent_chat_id = 5, sent_message_id = 9\<rparr>, w))
         ''-1001'' 2
         [\<lparr>fd_file_info = \<lparr>file_id = ''d2'', file_size = None\<rparr>, fd_file_type = KDocument,
           fd_file_name = Some ''a.pdf'', fd_additional = '''', fd_prefix = None\<rparr>] ())"
proof -
  let ?f1 = "\<lparr>fd_file_info = \<lparr>file_id = ''p1'', file_size = None\<rparr>, fd_file_type = KPhoto,
      fd_file_name = Some ''photo.jpg'', fd_additional = '''', fd_prefix = None\<rparr>"
  let ?f2 = "\<lparr>fd_file_info = \<lparr>file_id = ''d2'', file_size = None\<rparr>, fd_file_type = KDocument,
      fd_file_name = Some ''a.pdf'', fd_additional = '''', fd_prefix = None\<rparr>"
  let ?ud = "\<lparr>authenticated = True, files = Some [?f1, ?f2], current_index = None, target = None\<rparr>"
  let ?d = "\<lparr>groups_file = Missing, password_file = Missing\<rparr>"
  let ?api = "\<lambda>(w::unit) r. case r of SendPhoto c p t \<Rightarrow> (Inl ''boom'', w)
                 | _ \<Rightarrow> (Inr \<lparr>sent_chat_id = 5, sent_message_id = 9\<rparr>, w)"
  have a: "authenticated ?ud" by simp
  have f: "files ?ud = Some [?f1, ?f2]" by simp
  have ne: "[?f1, ?f2] \<noteq> []" by simp
  have lg: "load_groups ?d = Inr (JDict [])" by (simp add: load_groups_def try_except_def)
  have di: "dict_items (JDict []) = Inr []" by simp
  note inst = batch_session [OF a f ne lg di, where ts = "[Some ''-'', Some ''b'']"
      and api = ?api and tgt = "''-1001''" and w = "()"]
  note c1 = inst [THEN conjunct1]
  note c2 = inst [THEN conjunct2, THEN conjunct1]
  note c6 = inst [THEN conjunct2, THEN conjunct2, THEN conjunct2, THEN conjunct2,
      THEN conjunct2, THEN conjunct1]
  note c8 = inst [THEN conjunct2, THEN conjunct2, THEN conjunct2, THEN conjunct2,
      THEN conjunct2, THEN conjunct2, THEN conjunct2, THEN conjunct1]
  have s1: "strip ''-'' = ''-''" by (simp add: strip_def is_space_def)
  have s2: "strip ''b'' = ''b''" by (simp add: strip_def is_space_def)
  have l1: "label_of (Some ''-'') ?f1 = Some ''photo.jpg''" by (simp add: label_of_def s1)
  have l2: "label_of (Some ''b'') ?f2 = Some ''b''" by (simp add: label_of_def s2)
  let ?uda = "\<lparr>authenticated = True, files = Some [?f1, ?f2], current_index = Some 0,
      target = None\<rparr>"
  let ?g1 = "\<lparr>fd_file_info = \<lparr>file_id = ''p1'', file_size = None\<rparr>,
      fd_file_type = KPhoto, fd_file_name = Some ''photo.jpg'',
      fd_additional = '''', fd_prefix = Some ''photo.jpg''\<rparr>"
  let ?g2 = "\<lparr>fd_file_info = \<lparr>file_id = ''d2'', file_size = None\<rparr>,
      fd_file_type = KDocument, fd_file_name = Some ''a.pdf'',
      fd_additional = '''', fd_prefix = Some ''b''\<rparr>"
  let ?udb = "\<lparr>authenticated = True, files = Some [?g1, ?g2], current_index = Some 2,
      target = None\<rparr>"
  have u0: "?ud\<lparr>current_index := Some 0\<rparr> = ?uda" by simp
  have p1: "batch_done ?ud = Inr ([prefix_prompt 1 ?f1], Some BATCH_GET_PREFIX, ?uda)"
    using c1 by simp
  have p2: "feed_prefixes ?d [Some ''-'', Some ''b''] ?uda
      = Inr ([prefix_prompt 2 ?f2, target_keyboard []], Some BS_TARGET, ?udb)"
    using c2 unfolding u0 by (simp add: l1 l2 numeral_2_eq_2 del: feed_prefixes.simps)
  have p3: "length (fst (send_all ?api ''-1001'' 1 [?f1, ?f2] ())) = 2"
    using c6 by (simp del: send_all.simps)
  have rq: "?api () (file_request ''-1001'' ?f1) = (Inl ''boom'', ())"
    by (simp add: file_request_def)
  have p4': "fst (send_all ?api ''-1001'' 1 (?f1 # [?f2]) ())
      = error_line 1 ''boom'' # fst (send_all ?api ''-1001'' (1 + 1) [?f2] ())"
    using c8 rq by blast
  have two: "(1::nat) + 1 = 2" by simp
  have p4: "fst (send_all ?api ''-1001'' 1 [?f1, ?f2] ())
      = error_line 1 ''boom'' # fst (send_all ?api ''-1001'' 2 [?f2] ())"
    using p4' unfolding two .
  show ?thesis by (intro conjI p1 p2 p3 p4)
qed

section \<open>Size formatting\<close>

lemma round_half_even_cases:
  assumes "0 < d"
  shows "round_half_even n d = n div d \<and> 2 * (n mod d) \<le> d
       \<or> round_half_even n d = n div d + 1 \<and> d \<le> 2 * (n mod d)"
  by (auto simp: round_half_even_def Let_def)

lemma round_half_even_near:
  assumes "0 < d"
  shows "2 * \<bar>d * round_half_even n d - n\<bar> \<le> d"
proof -
  have dm: "n = d * (n div d) + n mod d" by simp
  have r: "0 \<le> n mod d" "n mod d < d" using assms by simp_all
  from round_half_even_cases [OF assms, of n] show ?thesis
  proof
    assume a: "round_half_even n d = n div d \<and> 2 * (n mod d) \<le> d"
    then have "d * round_half_even n d - n = - (n mod d)"
      by (simp add: algebra_simps minus_mult_div_eq_mod)
    then show ?thesis using a r by simp
  next
    assume a: "round_half_even n d = n div d + 1 \<and> d \<le> 2 * (n mod d)"
    then have "d * round_half_even n d - n = d - n mod d"
      by (simp add: algebra_simps minus_mult_div_eq_mod)
    then show ?thesis using a r by simp
  qed
qed

lemma round_half_even_ge: "0 < d \<Longrightarrow> n div d \<le> round_half_even n d"
  using round_half_even_cases [of d n] by auto

lemma round_half_even_up:
  assumes "0 < d" and "d \<le> 2 * (n mod d)" and "odd (n div d)"
  shows "round_half_even n d = n div d + 1"
  using assms by (auto simp: round_half_even_def Let_def)

lemma round_half_even_exact: "round_half_even n 1 = n"
  by (simp add: round_half_even_def)

lemma bit_length_pos: "0 < a \<Longrightarrow> bit_length a = Suc (bit_length (a div 2))"
  by (simp add: bit_length.simps [of a])

lemma bit_length_bounds: "0 < a \<Longrightarrow> 2 ^ (bit_length a - 1) \<le> a \<and> a < 2 ^ bit_length a"
proof (induction a rule: bit_length.induct)
  case (1 n)
  show ?case
  proof (cases "n div 2 = 0")
    case True
    then have "n = 1" using "1.prems" by presburger
    then show ?thesis by (simp add: bit_length.simps [of 1] bit_length.simps [of 0])
  next
    case False
    then have pos: "0 < n div 2" using "1.prems" by presburger
    have ih: "2 ^ (bit_length (n div 2) - 1) \<le> n div 2 \<and> n div 2 < 2 ^ bit_length (n div 2)"
      using "1.IH" "1.prems" pos by simp
    have l: "bit_length n = Suc (bit_length (n div 2))" using "1.prems" by (rule bit_length_pos)
    have l2: "bit_length (n div 2) = Suc (bit_length (n div 2) - 1)"
      using bit_length_pos [OF pos] by simp
    have lo: "(2::int) ^ (bit_length n - 1) = 2 * 2 ^ (bit_length (n div 2) - 1)"
      unfolding l using l2 by (metis diff_Suc_1 power_Suc)
    have hi: "(2::int) ^ bit_length n = 2 * 2 ^ bit_length (n div 2)"
      unfolding l by simp
    have "2 * (n div 2) \<le> n" "n < 2 * (n div 2) + 2" by presburger+
    then show ?thesis unfolding lo hi using ih by linarith
  qed
qed

lemma bit_length_le:
  assumes "0 < a" and "a < 2 ^ k"
  shows "bit_length a \<le> k"
proof -
  have "(2::int) ^ (bit_length a - 1) < 2 ^ k"
    using bit_length_bounds [OF assms(1)] assms(2) by linarith
  then have "bit_length a - 1 < k" by (simp add: power_strict_increasing_iff)
  then show ?thesis by simp
qed

lemma bit_length_gt:
  assumes "0 < a" and "2 ^ k \<le> a"
  shows "k < bit_length a"
proof -
  have "(2::int) ^ k < 2 ^ bit_length a"
    using bit_length_bounds [OF assms(1)] assms(2) by linarith
  then show ?thesis by (simp add: power_strict_increasing_iff)
qed

lemma truediv_pow2_unfold:
  assumes "0 < b"
  shows "truediv_pow2 b 10 =
    (if 2 ^ 1034 \<le> \<bar>round_half_even b (2 ^ (bit_length b - 53)) * 2 ^ (bit_length b - 53)\<bar>
     then Inl OverflowError
     else Inr (round_half_even b (2 ^ (bit_length b - 53)) * 2 ^ (bit_length b - 53), 10))"
proof -
  have a: "\<bar>b\<bar> = b" using assms by simp
  have e: "(1024::nat) + 10 = 1034" by simp
  show ?thesis unfolding truediv_pow2_def Let_def a e ..
qed

lemma truediv_pow2_small:
  assumes "0 < b" and "b < 2 ^ 53"
  shows "truediv_pow2 b 10 = Inr (b, 10)"
proof -
  have "bit_length b \<le> 53" using assms by (rule bit_length_le)
  then have sh: "bit_length b - 53 = 0" by simp
  have "(2::int) ^ 53 < 2 ^ 1034" by (simp add: power_strict_increasing_iff)
  then have small: "\<not> 2 ^ 1034 \<le> \<bar>b\<bar>" using assms by linarith
  show ?thesis
    unfolding truediv_pow2_unfold [OF assms(1)] sh using small
    by (simp add: round_half_even_exact)
qed

lemma truediv_pow2_fits:
  assumes "0 < b" and "b < 2 ^ 1034 - 2 ^ 980"
  shows "\<exists>n. truediv_pow2 b 10 = Inr (n, 10) \<and> 0 \<le> n
           \<and> 2 * \<bar>n - b\<bar> \<le> 2 ^ (bit_length b - 53)"
proof -
  define sh where "sh = bit_length b - 53"
  define d where "d = (2::int) ^ sh"
  define n where "n = round_half_even b d * d"
  have dpos: "0 < d" unfolding d_def by simp
  have "b < 2 ^ 1034" using assms(2) by simp
  then have "bit_length b \<le> 1034" using assms(1) by (simp add: bit_length_le)
  then have "sh \<le> 981" unfolding sh_def by simp
  then have dle: "d \<le> 2 ^ 981" unfolding d_def by (rule power_increasing) simp
  have near: "2 * \<bar>n - b\<bar> \<le> d"
    using round_half_even_near [OF dpos, of b] unfolding n_def by (simp add: mult.commute)
  have "0 \<le> b div d" using assms(1) dpos by (simp add: pos_imp_zdiv_nonneg_iff)
  then have "0 \<le> round_half_even b d" using round_half_even_ge [OF dpos, of b] by linarith
  then have nn: "0 \<le> n" unfolding n_def using dpos by simp
  have p: "(2::int) ^ 1034 = 2 ^ 980 * 2 ^ 54" "(2::int) ^ 981 = 2 ^ 980 * 2"
    by (simp_all flip: power_add)
  have "2 * n \<le> 2 * b + d" using near by (simp add: abs_if split: if_splits)
  also have "\<dots> < 2 * 2 ^ 1034" using dle assms(2) unfolding p by linarith
  finally have fits: "\<not> 2 ^ 1034 \<le> \<bar>n\<bar>" using nn by simp
  have "truediv_pow2 b 10 = Inr (n, 10)"
    unfolding truediv_pow2_unfold [OF assms(1)] using fits
    unfolding n_def d_def sh_def by simp
  then show ?thesis using nn near unfolding d_def sh_def by blast
qed

lemma truediv_pow2_overflow:
  assumes "2 ^ 1034 - 2 ^ 980 \<le> b"
  shows "truediv_pow2 b 10 = Inl OverflowError"
proof -
  define sh where "sh = bit_length b - 53"
  define d where "d = (2::int) ^ sh"
  define n where "n = round_half_even b d * d"
  have dpos: "0 < d" unfolding d_def by simp
  have p: "(2::int) ^ 1034 = 2 ^ 980 * 2 ^ 54" "(2::int) ^ 1033 = 2 ^ 980 * 2 ^ 53"
    by (simp_all flip: power_add)
  have big: "(2::int) ^ 1033 \<le> b" using assms unfolding p by simp
  have "(0::int) < 2 ^ 1033" by (rule zero_less_power) simp
  then have bpos: "0 < b" using big by linarith
  have L: "1033 < bit_length b" using bpos big by (rule bit_length_gt)
  have over: "2 ^ 1034 \<le> n"
  proof (cases "bit_length b = 1034")
    case True
    then have sh: "sh = 981" unfolding sh_def by simp
    have d: "d = 2 ^ 981" unfolding d_def sh by simp
    have hi: "b < 2 ^ 1034" using bit_length_bounds [OF bpos] unfolding True by simp
    have q: "b div d = 2 ^ 53 - 1"
    proof (rule int_div_pos_eq [where r = "b - (2 ^ 53 - 1) * d"])
      show "b = d * (2 ^ 53 - 1) + (b - (2 ^ 53 - 1) * d)" by (simp add: algebra_simps)
      have "(2 ^ 53 - 1) * d = 2 ^ 1034 - 2 ^ 981" unfolding d by (simp add: algebra_simps flip: power_add)
      then show "0 \<le> b - (2 ^ 53 - 1) * d" "b - (2 ^ 53 - 1) * d < d"
        using assms hi unfolding d by simp_all
    qed
    have m: "b mod d = b - (2 ^ 53 - 1) * d"
      using q by (metis minus_div_mult_eq_mod)
    have "(2 ^ 53 - 1) * d = 2 ^ 1034 - 2 ^ 981" unfolding d by (simp add: algebra_simps flip: power_add)
    then have half: "d \<le> 2 * (b mod d)" unfolding m using assms unfolding d by simp
    have "odd (b div d)" unfolding q by simp
    then have "round_half_even b d = 2 ^ 53" using round_half_even_up [OF dpos half] q by simp
    then have "n = 2 ^ 53 * 2 ^ 981" unfolding n_def d by simp
    then show ?thesis by (simp flip: power_add)
  next
    case False
    then have "1034 < bit_length b" using L by simp
    then have l: "bit_length b - 1 = 52 + sh" "1034 \<le> 52 + sh" unfolding sh_def by simp_all
    have lo: "2 ^ 52 * d \<le> b"
      using bit_length_bounds [OF bpos] unfolding l(1) d_def by (simp add: power_add)
    have "(2 ^ 52 * d) div d \<le> b div d" using lo dpos by (rule zdiv_mono1)
    then have "2 ^ 52 \<le> b div d" using dpos by simp
    then have "2 ^ 52 \<le> round_half_even b d" using round_half_even_ge [OF dpos, of b] by linarith
    then have "2 ^ 52 * d \<le> n" unfolding n_def using dpos by simp
    moreover have "(2::int) ^ 1034 \<le> 2 ^ (52 + sh)" using l(2) by (rule power_increasing) simp
    ultimately show ?thesis unfolding d_def by (simp add: power_add)
  qed
  then have "2 ^ 1034 \<le> \<bar>n\<bar>" by simp
  then show ?thesis
    unfolding truediv_pow2_unfold [OF bpos] n_def d_def sh_def by simp
qed

lemma fmt_2f_nonneg:
  "0 \<le> n \<Longrightarrow> fmt_2f (n, k) = decimal2 (round_half_even (100 * n) (2 ^ k))"
  by (simp add: fmt_2f_def)

lemma hundredths:
  assumes "0 \<le> n"
  shows "0 \<le> round_half_even (100 * n) (2 ^ k)
     \<and> 2 * \<bar>2 ^ k * round_half_even (100 * n) (2 ^ k) - 100 * n\<bar> \<le> 2 ^ k"
proof -
  have d: "(0::int) < 2 ^ k" by simp
  have "0 \<le> (100 * n) div 2 ^ k" using assms by (simp add: pos_imp_zdiv_nonneg_iff)
  then have "0 \<le> round_half_even (100 * n) (2 ^ k)"
    using round_half_even_ge [OF d, of "100 * n"] by linarith
  then show ?thesis using round_half_even_near [OF d, of "100 * n"] by simp
qed

lemma decimal2_shape:
  "\<exists>ip d1 d2. decimal2 r = ip @ [CHR ''.'', d1, d2] \<and> ip \<noteq> [] \<and> list_all is_digit ip
     \<and> is_digit d1 \<and> is_digit d2"
proof -
  have "decimal2 r = str_nat (nat (r div 100))
      @ [CHR ''.'', digit_char (nat (r mod 100) div 10), digit_char (nat (r mod 100) mod 10)]"
    by (simp add: decimal2_def two_digits_def)
  then show ?thesis
    using str_nat_nonempty str_nat_digits is_digit_digit_char by blast
qed

lemma format_file_size_exact:
  assumes "1024 \<le> b" and "b < 2 ^ 53"
  shows "format_file_size (Some b) =
     Inr (if b < 1024 * 1024 then fmt_2f (b, 10) @ '' KB''
          else if b < 1024 * 1024 * 1024 then fmt_2f (b, 20) @ '' MB''
          else fmt_2f (b, 30) @ '' GB'')"
proof -
  have "0 < b" using assms(1) by simp
  then have t: "truediv_pow2 b 10 = Inr (b, 10)" using assms(2) by (rule truediv_pow2_small)
  show ?thesis using assms(1) by (simp add: format_file_size_def t fdiv_pow2_def)
qed

lemma format_file_size_large:
  assumes "1024 * 1024 * 1024 \<le> b"
  shows "format_file_size (Some b) =
     (case truediv_pow2 b 10 of
        Inl e \<Rightarrow> Inl e
      | Inr x \<Rightarrow> Inr (fmt_2f (fdiv_pow2 (fdiv_pow2 x 10) 10) @ '' GB''))"
  using assms by (simp add: format_file_size_def)

text \<open>
  Claim C3, amended. A missing size gives \<open>Unknown\<close>; \<open>b < 1024\<close> gives \<open>b B\<close>, unless
  \<open>b \<le> - 10\<^sup>4\<^sup>3\<^sup>0\<^sup>0\<close>, where the conversion of \<open>b\<close> to a string raises
  ValueError; in the bands below \<open>1024\<^sup>2\<close> and \<open>1024\<^sup>3\<close> the result is the quotient of \<open>b\<close>
  by 1024 or \<open>1024\<^sup>2\<close> rounded to hundredths, with unit KB or MB; from \<open>1024\<^sup>3\<close> on it
  is the quotient by \<open>1024\<^sup>3\<close> rounded to hundredths with unit GB, computed from \<open>b\<close>
  itself below \<open>2\<^sup>5\<^sup>3\<close> and from the double nearest to \<open>b / 1024\<close> beyond, as long as
  \<open>b < 2\<^sup>1\<^sup>0\<^sup>3\<^sup>4 - 2\<^sup>9\<^sup>8\<^sup>0\<close>; from there on the division raises
  OverflowError. A number rounded to hundredths is written as its integer digits, a point
  and exactly two digits.
\<close>

theorem format_file_size_bands:
  "format_file_size None = Inr ''Unknown''
   \<and> (- (10 ^ max_str_digits) < b \<and> b < 1024 \<longrightarrow>
        format_file_size (Some b) = Inr (str_int b @ '' B''))
   \<and> (b \<le> - (10 ^ max_str_digits) \<longrightarrow> format_file_size (Some b) = Inl ValueError)
   \<and> (1024 \<le> b \<and> b < 1024 * 1024 \<longrightarrow>
        (\<exists>r. 0 \<le> r \<and> 2 * \<bar>1024 * r - 100 * b\<bar> \<le> 1024
           \<and> format_file_size (Some b) = Inr (decimal2 r @ '' KB'')))
   \<and> (1024 * 1024 \<le> b \<and> b < 1024 * 1024 * 1024 \<longrightarrow>
        (\<exists>r. 0 \<le> r \<and> 2 * \<bar>1024 * 1024 * r - 100 * b\<bar> \<le> 1024 * 1024
           \<and> format_file_size (Some b) = Inr (decimal2 r @ '' MB'')))
   \<and> (1024 * 1024 * 1024 \<le> b \<and> b < 2 ^ 53 \<longrightarrow>
        (\<exists>r. 0 \<le> r \<and> 2 * \<bar>1024 * 1024 * 1024 * r - 100 * b\<bar> \<le> 1024 * 1024 * 1024
           \<and> format_file_size (Some b) = Inr (decimal2 r @ '' GB'')))
   \<and> (2 ^ 53 \<le> b \<and> b < 2 ^ 1034 - 2 ^ 980 \<longrightarrow>
        (\<exists>n r. 0 \<le> r \<and> 2 * \<bar>n - b\<bar> \<le> 2 ^ (bit_length b - 53)
           \<and> 2 * \<bar>1024 * 1024 * 1024 * r - 100 * n\<bar> \<le> 1024 * 1024 * 1024
           \<and> format_file_size (Some b) = Inr (decimal2 r @ '' GB'')))
   \<and> (2 ^ 1034 - 2 ^ 980 \<le> b \<longrightarrow> format_file_size (Some b) = Inl OverflowError)
   \<and> (\<exists>ip d1 d2. decimal2 r' = ip @ [CHR ''.'', d1, d2] \<and> ip \<noteq> [] \<and> list_all is_digit ip
         \<and> is_digit d1 \<and> is_digit d2)"
proof -
  have p10: "(2::int) ^ 10 = 1024" and p20: "(2::int) ^ 20 = 1024 * 1024"
    and p30: "(2::int) ^ 30 = 1024 * 1024 * 1024" by simp_all
  have lt53: "(1024::int) * 1024 * 1024 < 2 ^ 53" by simp
  have c1: "format_file_size None = Inr ''Unknown''" by (simp add: format_file_size_def)
  have lim: "(1024::int) < 10 ^ max_str_digits"
  proof -
    have "(10::int) ^ 4 \<le> 10 ^ max_str_digits"
      by (rule power_increasing) (simp_all add: max_str_digits_def)
    then show ?thesis by simp
  qed
  have c2: "- (10 ^ max_str_digits) < b \<and> b < 1024 \<longrightarrow>
        format_file_size (Some b) = Inr (str_int b @ '' B'')"
  proof
    assume h: "- (10 ^ max_str_digits) < b \<and> b < 1024"
    then have "\<bar>b\<bar> < 10 ^ max_str_digits" using lim by (simp add: abs_if)
    then have "py_str b = Inr (str_int b)" by (rule py_str_fits)
    then show "format_file_size (Some b) = Inr (str_int b @ '' B'')"
      using h by (simp add: format_file_size_def and_then_def)
  qed
  have c2': "b \<le> - (10 ^ max_str_digits) \<longrightarrow> format_file_size (Some b) = Inl ValueError"
  proof
    assume h: "b \<le> - (10 ^ max_str_digits)"
    have "(0::int) < 10 ^ max_str_digits" by simp
    then have "10 ^ max_str_digits \<le> \<bar>b\<bar>" and small: "b < 1024" using h by linarith+
    then have "py_str b = Inl ValueError" by (simp add: py_str_exceeds)
    then show "format_file_size (Some b) = Inl ValueError"
      using small by (simp add: format_file_size_def and_then_def)
  qed
  have c3: "1024 \<le> b \<and> b < 1024 * 1024 \<longrightarrow>
        (\<exists>r. 0 \<le> r \<and> 2 * \<bar>1024 * r - 100 * b\<bar> \<le> 1024
           \<and> format_file_size (Some b) = Inr (decimal2 r @ '' KB''))"
  proof
    assume h: "1024 \<le> b \<and> b < 1024 * 1024"
    then have b53: "b < 2 ^ 53" using lt53 by linarith
    have nn: "0 \<le> b" using h by simp
    have f: "format_file_size (Some b) = Inr (fmt_2f (b, 10) @ '' KB'')"
      using format_file_size_exact [of b] h b53 by simp
    show "\<exists>r. 0 \<le> r \<and> 2 * \<bar>1024 * r - 100 * b\<bar> \<le> 1024
           \<and> format_file_size (Some b) = Inr (decimal2 r @ '' KB'')"
      using hundredths [OF nn, of 10] unfolding f fmt_2f_nonneg [OF nn] p10 by blast
  qed
  have c4: "1024 * 1024 \<le> b \<and> b < 1024 * 1024 * 1024 \<longrightarrow>
        (\<exists>r. 0 \<le> r \<and> 2 * \<bar>1024 * 1024 * r - 100 * b\<bar> \<le> 1024 * 1024
           \<and> format_file_size (Some b) = Inr (decimal2 r @ '' MB''))"
  proof
    assume h: "1024 * 1024 \<le> b \<and> b < 1024 * 1024 * 1024"
    then have b53: "b < 2 ^ 53" using lt53 by linarith
    have nn: "0 \<le> b" using h by simp
    have f: "format_file_size (Some b) = Inr (fmt_2f (b, 20) @ '' MB'')"
      using format_file_size_exact [of b] h b53 by simp
    show "\<exists>r. 0 \<le> r \<and> 2 * \<bar>1024 * 1024 * r - 100 * b\<bar> \<le> 1024 * 1024
           \<and> format_file_size (Some b) = Inr (decimal2 r @ '' MB'')"
      using hundredths [OF nn, of 20] unfolding f fmt_2f_nonneg [OF nn] p20 by blast
  qed
  have c5: "1024 * 1024 * 1024 \<le> b \<and> b < 2 ^ 53 \<longrightarrow>
        (\<exists>r. 0 \<le> r \<and> 2 * \<bar>1024 * 1024 * 1024 * r - 100 * b\<bar> \<le> 1024 * 1024 * 1024
           \<and> format_file_size (Some b) = Inr (decimal2 r @ '' GB''))"
  proof
    assume h: "1024 * 1024 * 1024 \<le> b \<and> b < 2 ^ 53"
    have nn: "0 \<le> b" using h by simp
    have f: "format_file_size (Some b) = Inr (fmt_2f (b, 30) @ '' GB'')"
      using format_file_size_exact [of b] h by simp
    show "\<exists>r. 0 \<le> r \<and> 2 * \<bar>1024 * 1024 * 1024 * r - 100 * b\<bar> \<le> 1024 * 1024 * 1024
           \<and> format_file_size (Some b) = Inr (decimal2 r @ '' GB'')"
      using hundredths [OF nn, of 30] unfolding f fmt_2f_nonneg [OF nn] p30 by blast
  qed
  have c6: "2 ^ 53 \<le> b \<and> b < 2 ^ 1034 - 2 ^ 980 \<longrightarrow>
        (\<exists>n r. 0 \<le> r \<and> 2 * \<bar>n - b\<bar> \<le> 2 ^ (bit_length b - 53)
           \<and> 2 * \<bar>1024 * 1024 * 1024 * r - 100 * n\<bar> \<le> 1024 * 1024 * 1024
           \<and> format_file_size (Some b) = Inr (decimal2 r @ '' GB''))"
  proof
    assume h: "2 ^ 53 \<le> b \<and> b < 2 ^ 1034 - 2 ^ 980"
    then have big: "1024 * 1024 * 1024 \<le> b" using lt53 by linarith
    then have pos: "0 < b" by simp
    from truediv_pow2_fits [OF pos] h obtain n where
      t: "truediv_pow2 b 10 = Inr (n, 10)" and nn: "0 \<le> n"
      and near: "2 * \<bar>n - b\<bar> \<le> 2 ^ (bit_length b - 53)" by blast
    have f: "format_file_size (Some b) = Inr (fmt_2f (n, 30) @ '' GB'')"
      unfolding format_file_size_large [OF big] t by (simp add: fdiv_pow2_def)
    show "\<exists>n r. 0 \<le> r \<and> 2 * \<bar>n - b\<bar> \<le> 2 ^ (bit_length b - 53)
           \<and> 2 * \<bar>1024 * 1024 * 1024 * r - 100 * n\<bar> \<le> 1024 * 1024 * 1024
           \<and> format_file_size (Some b) = Inr (decimal2 r @ '' GB'')"
      using hundredths [OF nn, of 30] near unfolding f fmt_2f_nonneg [OF nn] p30 by blast
  qed
  have c7: "2 ^ 1034 - 2 ^ 980 \<le> b \<longrightarrow> format_file_size (Some b) = Inl OverflowError"
  proof
    assume h: "2 ^ 1034 - 2 ^ 980 \<le> b"
    have "(1024::int) * 1024 * 1024 \<le> 2 ^ 1034 - 2 ^ 980" by simp
    then have big: "1024 * 1024 * 1024 \<le> b" using h by linarith
    show "format_file_size (Some b) = Inl OverflowError"
      unfolding format_file_size_large [OF big] truediv_pow2_overflow [OF h] by simp
  qed
  note c8 = decimal2_shape [of r']
  from c1 c2 c2' c3 c4 c5 c6 c7 c8 show ?thesis by (intro conjI)
qed

text \<open>
  The claim as stated fails at both ends of the integers: two-decimal GB for every
  \<open>b \<ge> 1024\<^sup>3\<close> fails where the quotient no longer fits a double, and \<open>b B\<close> for every
  \<open>b < 1024\<close> fails where \<open>b\<close> no longer converts to a string.
\<close>

theorem format_file_size_overflow:
  "format_file_size (Some (2 ^ 1034)) = Inl OverflowError
   \<and> format_file_size (Some (- (10 ^ max_str_digits))) = Inl ValueError"
proof -
  have h: "(2::int) ^ 1034 - 2 ^ 980 \<le> 2 ^ 1034" by simp
  have big: "(1024::int) * 1024 * 1024 \<le> 2 ^ 1034" by simp
  have a: "format_file_size (Some (2 ^ 1034)) = Inl OverflowError"
    unfolding format_file_size_large [OF big] truediv_pow2_overflow [OF h] by simp
  have p: "py_str (- (10 ^ max_str_digits)) = Inl ValueError"
    by (rule py_str_exceeds) simp
  have "(0::int) < 10 ^ max_str_digits" by simp
  then have small: "- (10 ^ max_str_digits) < (1024::int)" by linarith
  have b: "format_file_size (Some (- (10 ^ max_str_digits))) = Inl ValueError"
    using small by (simp add: format_file_size_def and_then_def p)
  show ?thesis using a b by blast
qed

theorem format_file_size_bands_witness:
  "format_file_size (Some 5) = Inr ''5 B''
   \<and> format_file_size (Some 1536) = Inr ''1.50 KB''
   \<and> format_file_size (Some 5000000000) = Inr ''4.66 GB''"
proof -
  note i1 = format_file_size_bands [of 5 0]
  note i2 = format_file_size_bands [of 1536 0]
  note i3 = format_file_size_bands [of 5000000000 0]
  have a0: "- (10 ^ max_str_digits) < (5::int) \<and> (5::int) < 1024 \<longrightarrow>
      format_file_size (Some 5) = Inr (str_int 5 @ '' B'')"
    using i1 by blast
  have "(0::int) < 10 ^ max_str_digits" by simp
  then have neg: "- (10 ^ max_str_digits) < (5::int)" by linarith
  have s5: "str_int 5 = ''5''" by (simp add: str_int_def str_nat.simps digit_char_def)
  have a: "format_file_size (Some 5) = Inr ''5 B''" using a0 neg by (simp add: s5)
  have b0: "(1024::int) \<le> 1536 \<and> (1536::int) < 1024 * 1024 \<longrightarrow>
        (\<exists>r. 0 \<le> r \<and> 2 * \<bar>1024 * r - 100 * 1536\<bar> \<le> 1024
           \<and> format_file_size (Some 1536) = Inr (decimal2 r @ '' KB''))"
    using i2 by blast
  then obtain r where r: "2 * \<bar>1024 * r - 100 * 1536\<bar> \<le> (1024::int)"
    and fr: "format_file_size (Some 1536) = Inr (decimal2 r @ '' KB'')" by auto
  have "r = 150" using r by (simp add: abs_if split: if_splits)
  moreover have "decimal2 150 = ''1.50''"
    by (simp add: decimal2_def two_digits_def digit_char_def str_nat.simps)
  ultimately have b: "format_file_size (Some 1536) = Inr ''1.50 KB''" using fr by simp
  have c0: "(1024::int) * 1024 * 1024 \<le> 5000000000 \<and> (5000000000::int) < 2 ^ 53 \<longrightarrow>
        (\<exists>r. 0 \<le> r \<and> 2 * \<bar>1024 * 1024 * 1024 * r - 100 * 5000000000\<bar> \<le> 1024 * 1024 * 1024
           \<and> format_file_size (Some 5000000000) = Inr (decimal2 r @ '' GB''))"
    using i3 by blast
  then obtain q where q: "2 * \<bar>1024 * 1024 * 1024 * q - 100 * 5000000000\<bar> \<le> (1024::int) * 1024 * 1024"
    and fq: "format_file_size (Some 5000000000) = Inr (decimal2 q @ '' GB'')" by auto
  have "q = 466" using q by (simp add: abs_if split: if_splits)
  moreover have "decimal2 466 = ''4.66''"
    by (simp add: decimal2_def two_digits_def digit_char_def str_nat.simps)
  ultimately have c: "format_file_size (Some 5000000000) = Inr ''4.66 GB''" using fq by simp
  show ?thesis using a b c by blast
qed

end
